theory Spec2Isabelle
  imports Main "HOL-Library.AList" "HOL-Library.Char_ord" "HOL-Library.List_Lexorder"
    "HOL-Library.Multiset"
begin

section \<open>Payloads\<close>

text \<open>
  The status page delivers JSON objects, which the Python code reads as dictionaries.
  A descriptor is a record with one field per key the code reads; a field is
  \<open>None\<close> when the key is absent from the dictionary and \<open>Some v\<close> when it is
  present with the string \<open>v\<close>. Strings are compared byte by byte, which on UTF-8
  agrees with Python's comparison by code point.
\<close>

record component =
  comp_id :: "string option"
  comp_name :: "string option"
  comp_status :: "string option"

record summary =
  components :: "component list option"

record incident_update =
  upd_id :: "string option"
  upd_status :: "string option"
  upd_body :: "string option"
  upd_created_at :: "string option"

record incident =
  inc_id :: "string option"
  inc_name :: "string option"
  inc_impact :: "string option"
  inc_status :: "string option"
  inc_updated_at :: "string option"
  incident_updates :: "incident_update list option"

record incidents_data =
  incidents :: "incident list option"

text \<open>\<open>d.get(key, default)\<close> on a field: the default where the key is absent.\<close>

definition dget :: "'a option \<Rightarrow> 'a \<Rightarrow> 'a" where
  "dget v d = (case v of None \<Rightarrow> d | Some x \<Rightarrow> x)"

datatype py_error = KeyError | ValueError | OverflowError

section \<open>The monitor of \<open>OpenAI_status.py\<close>\<close>

text \<open>
  A dictionary of the monitor is an association list in insertion order:
  \<open>map_of\<close> looks a key up and \<open>AList.update\<close> assigns to it, keeping the place of a
  key that is already there and appending a new one, as a Python dictionary does.
\<close>

record incident_record =
  updated_at :: string
  status :: string
  seen_update_ids :: "string set"

definition incident_record :: "string \<Rightarrow> string \<Rightarrow> string set \<Rightarrow> incident_record" where
  "incident_record t st ids = \<lparr>updated_at = t, status = st, seen_update_ids = ids\<rparr>"

record monitor =
  interval :: "int option"
  known_incidents :: "(string \<times> incident_record) list"
  component_statuses :: "(string \<times> string) list"
  component_names :: "(string \<times> string) list"
  first_run :: bool

definition CALM_INTERVAL :: int where
  "CALM_INTERVAL = 60"

definition ACTIVE_INTERVAL :: int where
  "ACTIVE_INTERVAL = 15"

text \<open>\<open>StatusPageMonitor.__init__\<close>, with the \<open>interval\<close> argument.\<close>

definition init_monitor :: "int option \<Rightarrow> monitor" where
  "init_monitor iv =
     \<lparr>interval = iv, known_incidents = [], component_statuses = [],
      component_names = [], first_run = True\<rparr>"

text \<open>
  What the monitor prints, one value for each block of lines, with the fields the
  block shows (the wall-clock line of a block is left out). Each value also carries
  the id of the component or incident whose descriptor caused it.
\<close>

datatype event =
    ComponentStatusChanged string string string string
  | IncidentOpened string string string string string
  | IncidentUpdated string string string string string

fun event_id :: "event \<Rightarrow> string" where
  "event_id (ComponentStatusChanged cid name old new) = cid"
| "event_id (IncidentOpened iid name impact st body) = iid"
| "event_id (IncidentUpdated iid name st body t) = iid"

fun is_opened :: "event \<Rightarrow> bool" where
  "is_opened (IncidentOpened iid name impact st body) = True"
| "is_opened _ = False"

text \<open>
  A call returns the monitor as the call left it, the blocks it printed, and the
  exception that ended it, if one did. The Python functions return
  \<open>changes\<close>, which is true exactly when a block was printed.
\<close>

type_synonym outcome = "monitor \<times> event list \<times> py_error option"

subsection \<open>\<open>get_interval\<close>\<close>

definition is_active :: "incident_record \<Rightarrow> bool" where
  "is_active v = (status v \<noteq> ''resolved'' \<and> status v \<noteq> ''postmortem'')"

definition get_interval :: "monitor \<Rightarrow> int" where
  "get_interval m =
     (case interval m of
        Some i \<Rightarrow> i
      | None \<Rightarrow>
          (let has_active = list_ex (\<lambda>(k, v). is_active v) (known_incidents m)
           in if has_active then ACTIVE_INTERVAL else CALM_INTERVAL))"

subsection \<open>\<open>process_summary\<close>\<close>

text \<open>
  The body of the loop over the components. The three subscripts
  \<open>comp["id"], comp["name"], comp["status"]\<close> are evaluated before anything is
  assigned, and each raises \<open>KeyError\<close> on an absent key.
\<close>

definition process_component :: "component \<Rightarrow> monitor \<Rightarrow> outcome" where
  "process_component c m =
     (case comp_id c of None \<Rightarrow> (m, [], Some KeyError) | Some cid \<Rightarrow>
      case comp_name c of None \<Rightarrow> (m, [], Some KeyError) | Some name \<Rightarrow>
      case comp_status c of None \<Rightarrow> (m, [], Some KeyError) | Some st \<Rightarrow>
        (let m1 = m\<lparr>component_names := AList.update cid name (component_names m)\<rparr>;
             old = map_of (component_statuses m1) cid;
             out = (case old of
                      None \<Rightarrow> []
                    | Some old' \<Rightarrow>
                        if old' \<noteq> st then [ComponentStatusChanged cid name old' st] else [])
         in (m1\<lparr>component_statuses := AList.update cid st (component_statuses m1)\<rparr>,
             out, None)))"

fun summary_loop :: "component list \<Rightarrow> monitor \<Rightarrow> outcome" where
  "summary_loop [] m = (m, [], None)"
| "summary_loop (c # rest) m =
     (case process_component c m of
        (m1, out, Some e) \<Rightarrow> (m1, out, Some e)
      | (m1, out, None) \<Rightarrow>
          (case summary_loop rest m1 of (m2, out2, r) \<Rightarrow> (m2, out @ out2, r)))"

definition process_summary :: "summary \<Rightarrow> monitor \<Rightarrow> outcome" where
  "process_summary data m = summary_loop (dget (components data) []) m"

subsection \<open>\<open>fmt_time\<close>\<close>

text \<open>\<open>ts.replace("Z", "+00:00")\<close>.\<close>

definition replace_Z :: "string \<Rightarrow> string" where
  "replace_Z ts = concat (map (\<lambda>ch. if ch = CHR ''Z'' then ''+00:00'' else [ch]) ts)"

text \<open>
  \<open>fmt_time\<close> hands the string to \<open>datetime.fromisoformat\<close>, converts the result
  with \<open>astimezone()\<close> and renders it with \<open>strftime\<close>. These calls of the standard
  library are the parameter \<open>local_time\<close>: for a string it is the exception the calls
  raise (\<open>ValueError\<close> from \<open>fromisoformat\<close> on a string it does not accept,
  \<open>OverflowError\<close> from \<open>astimezone\<close> on a date at the end of the calendar), or the
  rendered local time.
\<close>

definition fmt_time :: "(string \<Rightarrow> py_error + string) \<Rightarrow> string \<Rightarrow> py_error + string" where
  "fmt_time local_time ts = local_time (replace_Z ts)"

subsection \<open>\<open>process_incidents\<close>\<close>

text \<open>The set comprehension \<open>{u["id"] for u in updates}\<close>.\<close>

fun update_ids :: "incident_update list \<Rightarrow> py_error + string set" where
  "update_ids [] = Inr {}"
| "update_ids (u # us) =
     (case upd_id u of
        None \<Rightarrow> Inl KeyError
      | Some i \<Rightarrow> (case update_ids us of Inl e \<Rightarrow> Inl e | Inr S \<Rightarrow> Inr (insert i S)))"

text \<open>
  \<open>sorted(xs, key=lambda u: u.get("created_at", ""), reverse=True)\<close>: Python's sort
  is stable, and with \<open>reverse=True\<close> elements with equal keys keep their order.
\<close>

definition created_key :: "incident_update \<Rightarrow> string" where
  "created_key u = dget (upd_created_at u) ''''"

definition sorted_desc :: "incident_update list \<Rightarrow> incident_update list" where
  "sorted_desc us = rev (sort_key created_key (rev us))"

text \<open>The list comprehension \<open>[u for u in updates if u["id"] in new_ids]\<close>.\<close>

definition is_new :: "string set \<Rightarrow> incident_update \<Rightarrow> bool" where
  "is_new new_ids u = (case upd_id u of None \<Rightarrow> False | Some i \<Rightarrow> i \<in> new_ids)"

text \<open>
  The loop over the new updates. In the block of an update \<open>fmt_time\<close> is called
  before \<open>inc['name']\<close> is read.
\<close>

fun emit_updates ::
  "(string \<Rightarrow> py_error + string) \<Rightarrow> string \<Rightarrow> string option \<Rightarrow> incident_update list
     \<Rightarrow> event list \<times> py_error option" where
  "emit_updates local_time iid name [] = ([], None)"
| "emit_updates local_time iid name (upd # rest) =
     (let s = dget (upd_status upd) ''unknown'';
          body = dget (upd_body upd) ''''
      in case fmt_time local_time (dget (upd_created_at upd) '''') of
           Inl e \<Rightarrow> ([], Some e)
         | Inr t \<Rightarrow>
             (case name of
                None \<Rightarrow> ([], Some KeyError)
              | Some n \<Rightarrow>
                  (case emit_updates local_time iid name rest of
                     (out, r) \<Rightarrow> (IncidentUpdated iid n s body t # out, r))))"

text \<open>The body of the loop over the incidents.\<close>

definition process_incident ::
  "(string \<Rightarrow> py_error + string) \<Rightarrow> bool \<Rightarrow> incident \<Rightarrow> monitor \<Rightarrow> outcome" where
  "process_incident local_time suppress inc m =
     (case inc_id inc of None \<Rightarrow> (m, [], Some KeyError) | Some iid \<Rightarrow>
      let updates = dget (incident_updates inc) [] in
      case update_ids updates of Inl e \<Rightarrow> (m, [], Some e) | Inr uids \<Rightarrow>
      (case map_of (known_incidents m) iid of
         None \<Rightarrow>
           (let m1 = m\<lparr>known_incidents :=
                        AList.update iid
                          \<lparr>updated_at = dget (inc_updated_at inc) '''',
                           status = dget (inc_status inc) '''',
                           seen_update_ids = uids\<rparr>
                          (known_incidents m)\<rparr>
            in if \<not> suppress then
                 (let impact = dget (inc_impact inc) ''none'';
                      st = dget (inc_status inc) ''unknown'';
                      body = (case updates of [] \<Rightarrow> '''' | u # _ \<Rightarrow> dget (upd_body u) '''')
                  in case inc_name inc of
                       None \<Rightarrow> (m1, [], Some KeyError)
                     | Some name \<Rightarrow> (m1, [IncidentOpened iid name impact st body], None))
               else (m1, [], None))
       | Some known \<Rightarrow>
           (let new_ids = uids - seen_update_ids known
            in if new_ids \<noteq> {} then
                 (let new_updates = sorted_desc (filter (is_new new_ids) updates)
                  in case emit_updates local_time iid (inc_name inc) new_updates of
                       (out, Some e) \<Rightarrow> (m, out, Some e)
                     | (out, None) \<Rightarrow>
                         (m\<lparr>known_incidents :=
                              AList.update iid
                                (known\<lparr>seen_update_ids := uids,
                                       updated_at := dget (inc_updated_at inc) '''',
                                       status := dget (inc_status inc) ''''\<rparr>)
                                (known_incidents m)\<rparr>,
                          out, None))
               else (m, [], None))))"

fun incidents_loop ::
  "(string \<Rightarrow> py_error + string) \<Rightarrow> bool \<Rightarrow> incident list \<Rightarrow> monitor \<Rightarrow> outcome" where
  "incidents_loop local_time suppress [] m = (m, [], None)"
| "incidents_loop local_time suppress (inc # rest) m =
     (case process_incident local_time suppress inc m of
        (m1, out, Some e) \<Rightarrow> (m1, out, Some e)
      | (m1, out, None) \<Rightarrow>
          (case incidents_loop local_time suppress rest m1 of
             (m2, out2, r) \<Rightarrow> (m2, out @ out2, r)))"

definition process_incidents ::
  "(string \<Rightarrow> py_error + string) \<Rightarrow> incidents_data \<Rightarrow> bool \<Rightarrow> monitor \<Rightarrow> outcome" where
  "process_incidents local_time data suppress m =
     incidents_loop local_time suppress (dget (incidents data) []) m"

subsection \<open>\<open>poll\<close> and \<open>run\<close>\<close>

text \<open>
  One poll, given what the two fetches returned: the parsed body of a response with
  status 200, and \<open>None\<close> for anything else (a 304, an error status, a failed request).
  An exception of \<open>process_summary\<close> or \<open>process_incidents\<close> ends the poll before
  \<open>first_run\<close> is reset.
\<close>

definition poll ::
  "(string \<Rightarrow> py_error + string) \<Rightarrow> summary option \<Rightarrow> incidents_data option \<Rightarrow> monitor
     \<Rightarrow> outcome" where
  "poll local_time sdata idata m =
     (case (case sdata of None \<Rightarrow> (m, [], None) | Some d \<Rightarrow> process_summary d m) of
        (m1, out1, Some e) \<Rightarrow> (m1, out1, Some e)
      | (m1, out1, None) \<Rightarrow>
          (case (case idata of
                   None \<Rightarrow> (m1, [], None)
                 | Some d \<Rightarrow> process_incidents local_time d (first_run m1) m1) of
             (m2, out2, Some e) \<Rightarrow> (m2, out1 @ out2, Some e)
           | (m2, out2, None) \<Rightarrow> (m2\<lparr>first_run := False\<rparr>, out1 @ out2, None)))"

text \<open>
  The loop of \<open>run\<close> over the results of successive fetches. It catches the exception
  of a poll, prints it and goes on with the monitor as the poll left it.
\<close>

fun run ::
  "(string \<Rightarrow> py_error + string) \<Rightarrow> (summary option \<times> incidents_data option) list \<Rightarrow> monitor
     \<Rightarrow> monitor \<times> event list" where
  "run local_time [] m = (m, [])"
| "run local_time ((sdata, idata) # rest) m =
     (case poll local_time sdata idata m of
        (m1, out, r) \<Rightarrow> (case run local_time rest m1 of (m2, out2) \<Rightarrow> (m2, out @ out2)))"

section \<open>The poll loop of \<open>server.py\<close>\<close>

text \<open>The module's dictionaries \<open>known_incidents\<close> and \<open>component_statuses\<close>, and \<open>first_run\<close>.\<close>

record server_incident =
  sv_status :: string
  sv_seen :: "string set"

record server =
  sv_known_incidents :: "(string \<times> server_incident) list"
  sv_component_statuses :: "(string \<times> string) list"
  sv_first_run :: bool

definition init_server :: server where
  "init_server = \<lparr>sv_known_incidents = [], sv_component_statuses = [], sv_first_run = True\<rparr>"

text \<open>
  What \<open>push_log\<close> receives for a change, one value for each pair of lines, with the
  fields the lines show. The lines that report what was loaded and how often the
  server polls are left out.
\<close>

datatype log_entry =
    ComponentChange string string string
  | NewIncident string string string
  | IncidentUpdate string string string string

type_synonym server_outcome = "server \<times> log_entry list \<times> py_error option"

text \<open>The first-run loop: \<open>component_statuses[comp["id"]] = comp["status"]\<close>.\<close>

fun load_components :: "component list \<Rightarrow> server \<Rightarrow> server_outcome" where
  "load_components [] s = (s, [], None)"
| "load_components (c # rest) s =
     (case comp_status c of None \<Rightarrow> (s, [], Some KeyError) | Some st \<Rightarrow>
      case comp_id c of None \<Rightarrow> (s, [], Some KeyError) | Some cid \<Rightarrow>
        load_components rest
          (s\<lparr>sv_component_statuses := AList.update cid st (sv_component_statuses s)\<rparr>))"

text \<open>
  The body of the loop of the later polls. \<open>if old and old != comp["status"]\<close> takes
  an empty string for no status at all, and reads \<open>comp["status"]\<close> only when \<open>old\<close>
  is a non-empty string.
\<close>

definition store_status :: "component \<Rightarrow> string \<Rightarrow> log_entry list \<Rightarrow> server \<Rightarrow> server_outcome" where
  "store_status c cid out s =
     (case comp_status c of
        None \<Rightarrow> (s, out, Some KeyError)
      | Some st \<Rightarrow>
          (s\<lparr>sv_component_statuses := AList.update cid st (sv_component_statuses s)\<rparr>,
           out, None))"

definition diff_component :: "component \<Rightarrow> server \<Rightarrow> server_outcome" where
  "diff_component c s =
     (case comp_id c of None \<Rightarrow> (s, [], Some KeyError) | Some cid \<Rightarrow>
      (case map_of (sv_component_statuses s) cid of
         None \<Rightarrow> store_status c cid [] s
       | Some old \<Rightarrow>
           if old \<noteq> '''' then
             (case comp_status c of None \<Rightarrow> (s, [], Some KeyError) | Some st \<Rightarrow>
                if old \<noteq> st then
                  (case comp_name c of
                     None \<Rightarrow> (s, [], Some KeyError)
                   | Some name \<Rightarrow> store_status c cid [ComponentChange name old st] s)
                else store_status c cid [] s)
           else store_status c cid [] s))"

fun diff_components :: "component list \<Rightarrow> server \<Rightarrow> server_outcome" where
  "diff_components [] s = (s, [], None)"
| "diff_components (c # rest) s =
     (case diff_component c s of
        (s1, out, Some e) \<Rightarrow> (s1, out, Some e)
      | (s1, out, None) \<Rightarrow>
          (case diff_components rest s1 of (s2, out2, r) \<Rightarrow> (s2, out @ out2, r)))"

text \<open>
  The loop over the new updates of an incident: \<open>u['created_at']\<close> is subscripted,
  then \<open>fmt_time\<close> is called, then \<open>inc['name']\<close> is read.
\<close>

fun log_updates ::
  "(string \<Rightarrow> py_error + string) \<Rightarrow> string option \<Rightarrow> incident_update list
     \<Rightarrow> log_entry list \<times> py_error option" where
  "log_updates local_time name [] = ([], None)"
| "log_updates local_time name (u # rest) =
     (let s = dget (upd_status u) '''';
          body = dget (upd_body u) ''''
      in case upd_created_at u of
           None \<Rightarrow> ([], Some KeyError)
         | Some ts \<Rightarrow>
             (case fmt_time local_time ts of
                Inl e \<Rightarrow> ([], Some e)
              | Inr t \<Rightarrow>
                  (case name of
                     None \<Rightarrow> ([], Some KeyError)
                   | Some n \<Rightarrow>
                       (case log_updates local_time name rest of
                          (out, r) \<Rightarrow> (IncidentUpdate t n s body # out, r)))))"

text \<open>The body of the loop over the incidents.\<close>

definition log_incident ::
  "(string \<Rightarrow> py_error + string) \<Rightarrow> incident \<Rightarrow> server \<Rightarrow> server_outcome" where
  "log_incident local_time inc s =
     (case inc_id inc of None \<Rightarrow> (s, [], Some KeyError) | Some iid \<Rightarrow>
      let updates = dget (incident_updates inc) [] in
      case update_ids updates of Inl e \<Rightarrow> (s, [], Some e) | Inr uids \<Rightarrow>
      (case map_of (sv_known_incidents s) iid of
         None \<Rightarrow>
           (let s1 = s\<lparr>sv_known_incidents :=
                        AList.update iid
                          \<lparr>sv_status = dget (inc_status inc) '''', sv_seen = uids\<rparr>
                          (sv_known_incidents s)\<rparr>
            in if \<not> sv_first_run s then
                 (let impact = dget (inc_impact inc) ''none''
                  in case inc_name inc of
                       None \<Rightarrow> (s1, [], Some KeyError)
                     | Some name \<Rightarrow>
                         (s1, [NewIncident name impact (dget (inc_status inc) '''')], None))
               else (s1, [], None))
       | Some known \<Rightarrow>
           (let new_ids = uids - sv_seen known
            in if new_ids \<noteq> {} then
                 (case log_updates local_time (inc_name inc)
                         (sorted_desc (filter (is_new new_ids) updates)) of
                    (out, Some e) \<Rightarrow> (s, out, Some e)
                  | (out, None) \<Rightarrow>
                      (s\<lparr>sv_known_incidents :=
                           AList.update iid
                             (known\<lparr>sv_seen := uids, sv_status := dget (inc_status inc) ''''\<rparr>)
                             (sv_known_incidents s)\<rparr>,
                       out, None))
               else (s, [], None))))"

fun log_incidents ::
  "(string \<Rightarrow> py_error + string) \<Rightarrow> incident list \<Rightarrow> server \<Rightarrow> server_outcome" where
  "log_incidents local_time [] s = (s, [], None)"
| "log_incidents local_time (inc # rest) s =
     (case log_incident local_time inc s of
        (s1, out, Some e) \<Rightarrow> (s1, out, Some e)
      | (s1, out, None) \<Rightarrow>
          (case log_incidents local_time rest s1 of (s2, out2, r) \<Rightarrow> (s2, out @ out2, r)))"

text \<open>
  One turn of the \<open>while True\<close> loop of \<open>poll_loop\<close>, given what the two calls of
  \<open>fetch_json\<close> returned.
\<close>

definition poll_iteration ::
  "(string \<Rightarrow> py_error + string) \<Rightarrow> summary option \<Rightarrow> incidents_data option \<Rightarrow> server
     \<Rightarrow> server_outcome" where
  "poll_iteration local_time sdata idata s =
     (case (case sdata of
              None \<Rightarrow> (s, [], None)
            | Some d \<Rightarrow>
                if sv_first_run s then load_components (dget (components d) []) s
                else diff_components (dget (components d) []) s) of
        (s1, out1, Some e) \<Rightarrow> (s1, out1, Some e)
      | (s1, out1, None) \<Rightarrow>
          (case (case idata of
                   None \<Rightarrow> (s1, [], None)
                 | Some d \<Rightarrow> log_incidents local_time (dget (incidents d) []) s1) of
             (s2, out2, Some e) \<Rightarrow> (s2, out1 @ out2, Some e)
           | (s2, out2, None) \<Rightarrow> (s2\<lparr>sv_first_run := False\<rparr>, out1 @ out2, None)))"

text \<open>
  \<open>poll_loop\<close> over the results of successive fetches. Nothing catches an exception
  here: it ends the loop.
\<close>

fun poll_loop ::
  "(string \<Rightarrow> py_error + string) \<Rightarrow> (summary option \<times> incidents_data option) list \<Rightarrow> server
     \<Rightarrow> server_outcome" where
  "poll_loop local_time [] s = (s, [], None)"
| "poll_loop local_time ((sdata, idata) # rest) s =
     (case poll_iteration local_time sdata idata s of
        (s1, out, Some e) \<Rightarrow> (s1, out, Some e)
      | (s1, out, None) \<Rightarrow>
          (case poll_loop local_time rest s1 of (s2, out2, r) \<Rightarrow> (s2, out @ out2, r)))"


section \<open>Vocabulary of the statements\<close>

text \<open>A component descriptor that has the three keys \<open>process_summary\<close> subscripts.\<close>

definition has_keys :: "component \<Rightarrow> bool" where
  "has_keys c = (comp_id c \<noteq> None \<and> comp_name c \<noteq> None \<and> comp_status c \<noteq> None)"

text \<open>
  The status on record for the component \<open>cid\<close> once the descriptors \<open>before\<close> have
  been processed by a monitor that started as \<open>m\<close>: the status of the last of them
  that has this id, and the status stored in \<open>m\<close> when none has.
\<close>

definition recorded_status :: "monitor \<Rightarrow> component list \<Rightarrow> string \<Rightarrow> string option" where
  "recorded_status m before cid =
     (case filter (\<lambda>c. comp_id c = Some cid) (rev before) of
        [] \<Rightarrow> map_of (component_statuses m) cid
      | c # _ \<Rightarrow> comp_status c)"

text \<open>
  The rule of the specification for one descriptor, given the status on record: no
  event without a prior record, no event for an unchanged status, and otherwise one
  event with the old status, the new status and the descriptor's own name.
\<close>

definition change_of :: "string option \<Rightarrow> component \<Rightarrow> event list" where
  "change_of prior c =
     (case (prior, comp_id c, comp_name c, comp_status c) of
        (Some old, Some cid, Some name, Some st) \<Rightarrow>
          if old \<noteq> st then [ComponentStatusChanged cid name old st] else []
      | _ \<Rightarrow> [])"

text \<open>What the server keeps of the monitor's state.\<close>

definition tracked_incident :: "incident_record \<Rightarrow> server_incident" where
  "tracked_incident r = \<lparr>sv_status = status r, sv_seen = seen_update_ids r\<rparr>"

definition tracked :: "monitor \<Rightarrow> server" where
  "tracked m =
     \<lparr>sv_known_incidents = map (\<lambda>(k, r). (k, tracked_incident r)) (known_incidents m),
      sv_component_statuses = component_statuses m,
      sv_first_run = first_run m\<rparr>"

text \<open>The log entry of the server for a block of the monitor.\<close>

fun log_of :: "event \<Rightarrow> log_entry" where
  "log_of (ComponentStatusChanged cid name old new) = ComponentChange name old new"
| "log_of (IncidentOpened iid name impact st body) = NewIncident name impact st"
| "log_of (IncidentUpdated iid name st body t) = IncidentUpdate t name st body"

text \<open>
  The payloads on which the two variants are compared. A component has the keys
  \<open>id\<close>, \<open>name\<close> and \<open>status\<close>, and its status is not the empty string. An update
  has the keys \<open>id\<close>, \<open>status\<close> and \<open>created_at\<close>, and \<open>fmt_time\<close> renders its
  \<open>created_at\<close> without an exception. An incident has the keys \<open>id\<close>, \<open>name\<close> and
  \<open>status\<close>, and its updates are such updates. The first summary of a sequence of
  fetch results lists no component id twice.
\<close>

definition complete_component :: "component \<Rightarrow> bool" where
  "complete_component c =
     (comp_id c \<noteq> None \<and> comp_name c \<noteq> None \<and> comp_status c \<noteq> None \<and>
      comp_status c \<noteq> Some '''')"

definition complete_update :: "(string \<Rightarrow> py_error + string) \<Rightarrow> incident_update \<Rightarrow> bool" where
  "complete_update local_time u =
     (upd_id u \<noteq> None \<and> upd_status u \<noteq> None \<and>
      (case upd_created_at u of None \<Rightarrow> False | Some ts \<Rightarrow> \<not> isl (local_time (replace_Z ts))))"

definition complete_incident :: "(string \<Rightarrow> py_error + string) \<Rightarrow> incident \<Rightarrow> bool" where
  "complete_incident local_time inc =
     (inc_id inc \<noteq> None \<and> inc_name inc \<noteq> None \<and> inc_status inc \<noteq> None \<and>
      list_all (complete_update local_time) (dget (incident_updates inc) []))"

definition complete_poll ::
  "(string \<Rightarrow> py_error + string) \<Rightarrow> summary option \<times> incidents_data option \<Rightarrow> bool" where
  "complete_poll local_time p =
     (case p of (sdata, idata) \<Rightarrow>
        (case sdata of
           None \<Rightarrow> True
         | Some d \<Rightarrow> list_all complete_component (dget (components d) [])) \<and>
        (case idata of
           None \<Rightarrow> True
         | Some d \<Rightarrow> list_all (complete_incident local_time) (dget (incidents d) [])))"

definition first_summary_distinct :: "(summary option \<times> incidents_data option) list \<Rightarrow> bool" where
  "first_summary_distinct polls =
     (case polls of
        (Some d, idata) # rest \<Rightarrow> distinct (map comp_id (dget (components d) []))
      | _ \<Rightarrow> True)"

text \<open>
  The instant that a UTC timestamp of the form \<open>YYYY-MM-DDTHH:MM:SS\<close>, with or
  without \<open>.fff\<close>, and a final \<open>Z\<close> denotes, in milliseconds: the fields from the year
  to the millisecond read as one numeral of mixed radix, which grows with the instant.
  Any other string has none.
\<close>

definition digit_val :: "char \<Rightarrow> nat option" where
  "digit_val ch =
     map_of [(CHR ''0'', 0), (CHR ''1'', 1), (CHR ''2'', 2), (CHR ''3'', 3), (CHR ''4'', 4),
             (CHR ''5'', 5), (CHR ''6'', 6), (CHR ''7'', 7), (CHR ''8'', 8), (CHR ''9'', 9)] ch"

fun number :: "nat \<Rightarrow> string \<Rightarrow> nat option" where
  "number acc [] = Some acc"
| "number acc (ch # rest) =
     (case digit_val ch of None \<Rightarrow> None | Some d \<Rightarrow> number (10 * acc + d) rest)"

definition fraction :: "string \<Rightarrow> nat option" where
  "fraction r =
     (if r = ''Z'' then Some 0
      else if length r = 5 \<and> take 1 r = ''.'' \<and> drop 4 r = ''Z'' then number 0 (take 3 (drop 1 r))
      else None)"

definition instant :: "string \<Rightarrow> nat option" where
  "instant ts =
     (if take 1 (drop 4 ts) = ''-'' \<and> take 1 (drop 7 ts) = ''-'' \<and> take 1 (drop 10 ts) = ''T'' \<and>
         take 1 (drop 13 ts) = '':'' \<and> take 1 (drop 16 ts) = '':'' then
        (case (number 0 (take 4 ts), number 0 (take 2 (drop 5 ts)),
               number 0 (take 2 (drop 8 ts)), number 0 (take 2 (drop 11 ts)),
               number 0 (take 2 (drop 14 ts)), number 0 (take 2 (drop 17 ts)),
               fraction (drop 19 ts)) of
           (Some y, Some mo, Some d, Some h, Some mi, Some s, Some ms) \<Rightarrow>
             Some ((((((y * 13 + mo) * 32 + d) * 24 + h) * 60 + mi) * 60 + s) * 1000 + ms)
         | _ \<Rightarrow> None)
      else None)"

text \<open>No component has the empty string as its stored status.\<close>

definition filled :: "monitor \<Rightarrow> bool" where
  "filled m = (\<forall>k. map_of (component_statuses m) k \<noteq> Some '''')"


section \<open>Example payloads\<close>

text \<open>A component descriptor with its three keys.\<close>

definition component :: "string \<Rightarrow> string \<Rightarrow> string \<Rightarrow> component" where
  "component cid name st = \<lparr>comp_id = Some cid, comp_name = Some name, comp_status = Some st\<rparr>"

text \<open>A monitor that has seen the components \<open>x\<close> and \<open>y\<close>, both operational.\<close>

definition m_seen :: monitor where
  "m_seen = (init_monitor None)
     \<lparr>component_statuses := [(''x'', ''operational''), (''y'', ''operational'')],
      first_run := False\<rparr>"

definition cs_poll :: "component list" where
  "cs_poll =
     [component ''x'' ''API'' ''major_outage'', component ''y'' ''Chat'' ''operational'',
      component ''z'' ''Sora'' ''degraded_performance'']"

text \<open>A payload that lists the component \<open>x\<close> twice.\<close>

definition cs_twice :: "component list" where
  "cs_twice =
     [component ''x'' ''API'' ''operational'', component ''y'' ''Chat'' ''operational'',
      component ''x'' ''API v2'' ''major_outage'']"


text \<open>Update and incident descriptors with all their keys.\<close>

definition update :: "string \<Rightarrow> string \<Rightarrow> string \<Rightarrow> string \<Rightarrow> incident_update" where
  "update uid st body created =
     \<lparr>upd_id = Some uid, upd_status = Some st, upd_body = Some body,
      upd_created_at = Some created\<rparr>"

definition incident ::
  "string \<Rightarrow> string \<Rightarrow> string \<Rightarrow> string \<Rightarrow> string \<Rightarrow> incident_update list \<Rightarrow> incident" where
  "incident iid name impact st updated us =
     \<lparr>inc_id = Some iid, inc_name = Some name, inc_impact = Some impact,
      inc_status = Some st, inc_updated_at = Some updated, incident_updates = Some us\<rparr>"

definition u_a :: incident_update where
  "u_a = update ''a'' ''investigating'' ''looking'' ''2024-01-01T00:00:00Z''"

definition u_b :: incident_update where
  "u_b = update ''b'' ''identified'' ''found'' ''2024-01-01T01:00:00Z''"

definition u_c :: incident_update where
  "u_c = update ''c'' ''monitoring'' ''fixed'' ''2024-01-01T02:00:00Z''"

definition u_d :: incident_update where
  "u_d = update ''d'' ''resolved'' ''done'' ''2024-01-01T03:00:00Z''"

text \<open>A monitor that tracks incident \<open>1\<close> and has seen its updates \<open>a\<close> and \<open>b\<close>.\<close>

definition m_known :: monitor where
  "m_known = (init_monitor None)
     \<lparr>known_incidents := [(''1'', incident_record ''T1'' ''identified'' {''a'', ''b''})],
      first_run := False\<rparr>"

text \<open>Incident \<open>1\<close> as delivered again, with two more updates, and with \<open>a\<close> gone.\<close>

definition inc_same :: incident where
  "inc_same = incident ''1'' ''API errors'' ''major'' ''identified'' ''T1'' [u_b, u_a]"

definition inc_more :: incident where
  "inc_more = incident ''1'' ''API errors'' ''major'' ''resolved'' ''T3'' [u_c, u_d, u_b, u_a]"

definition inc_dropped :: incident where
  "inc_dropped = incident ''1'' ''API errors'' ''major'' ''monitoring'' ''T2'' [u_c, u_b]"

text \<open>An incident the monitor has not seen.\<close>

definition inc_fresh :: incident where
  "inc_fresh = incident ''2'' ''Login failures'' ''minor'' ''identified'' ''T1'' [u_b, u_a]"




text \<open>Two polls: the first run, then a poll with a component change and incident news.\<close>

definition polls_ex :: "(summary option \<times> incidents_data option) list" where
  "polls_ex =
     [(Some \<lparr>components = Some [component ''x'' ''API'' ''operational'',
                                  component ''y'' ''Chat'' ''operational'']\<rparr>,
       Some \<lparr>incidents = Some [inc_same]\<rparr>),
      (Some \<lparr>components = Some cs_poll\<rparr>, Some \<lparr>incidents = Some [inc_fresh, inc_more]\<rparr>)]"




text \<open>
  Two updates half a second apart, the later one written with a fraction of a second,
  and incident \<open>1\<close> delivered with them; incident \<open>1\<close> with one more update; and
  the unseen incident as delivered before its second update.
\<close>

definition u_p :: incident_update where
  "u_p = update ''p'' ''identified'' ''found'' ''2024-01-01T00:00:00Z''"

definition u_r :: incident_update where
  "u_r = update ''r'' ''monitoring'' ''fixed'' ''2024-01-01T00:00:00.500Z''"

definition inc_fraction :: incident where
  "inc_fraction = incident ''1'' ''API errors'' ''major'' ''monitoring'' ''T2'' [u_r, u_p, u_b, u_a]"

definition inc_first :: incident where
  "inc_first = incident ''1'' ''API errors'' ''major'' ''monitoring'' ''T2'' [u_c, u_b, u_a]"


definition inc_fresh_first :: incident where
  "inc_fresh_first = incident ''2'' ''Login failures'' ''minor'' ''investigating'' ''T0'' [u_a]"

text \<open>Two polls in which the component \<open>x\<close> goes from the empty status to operational.\<close>

definition polls_empty_status :: "(summary option \<times> incidents_data option) list" where
  "polls_empty_status =
     [(Some \<lparr>components = Some [component ''x'' ''API'' '''']\<rparr>, None),
      (Some \<lparr>components = Some [component ''x'' ''API'' ''operational'']\<rparr>, None)]"

section \<open>The loop of \<open>process_summary\<close>\<close>

lemma process_component_has_keys:
  "has_keys c \<Longrightarrow>
   process_component c m =
     (m\<lparr>component_names := AList.update (the (comp_id c)) (the (comp_name c)) (component_names m),
        component_statuses := AList.update (the (comp_id c)) (the (comp_status c)) (component_statuses m)\<rparr>,
      change_of (map_of (component_statuses m) (the (comp_id c))) c, None)"
  by (auto simp: has_keys_def process_component_def change_of_def split: option.splits)

lemma process_component_no_keys:
  "\<not> has_keys c \<Longrightarrow> process_component c m = (m, [], Some KeyError)"
  by (auto simp: has_keys_def process_component_def split: option.splits)

lemma summary_loop_append:
  "summary_loop (xs @ ys) m =
     (case summary_loop xs m of
        (m1, out, Some e) \<Rightarrow> (m1, out, Some e)
      | (m1, out, None) \<Rightarrow>
          (case summary_loop ys m1 of (m2, out2, r) \<Rightarrow> (m2, out @ out2, r)))"
  by (induction xs arbitrary: m) (auto split: prod.splits option.splits)

lemma summary_loop_completes:
  "(snd (snd (summary_loop cs m)) = None) = (\<forall>c \<in> set cs. has_keys c)"
proof (induction cs arbitrary: m)
  case Nil
  show ?case by simp
next
  case (Cons c cs)
  show ?case
  proof (cases "has_keys c")
    case True
    then obtain m1 out where step: "process_component c m = (m1, out, None)"
      by (simp add: process_component_has_keys)
    have "snd (snd (summary_loop (c # cs) m)) = snd (snd (summary_loop cs m1))"
      by (simp add: step split: prod.splits)
    then show ?thesis
      using True Cons.IH [of m1] by simp
  next
    case False
    then show ?thesis by (simp add: process_component_no_keys)
  qed
qed


lemma recorded_status_snoc:
  "recorded_status m (xs @ [c]) cid =
     (if comp_id c = Some cid then comp_status c else recorded_status m xs cid)"
  by (simp add: recorded_status_def)

lemma summary_loop_statuses:
  "\<forall>c \<in> set cs. has_keys c \<Longrightarrow>
   map_of (component_statuses (fst (summary_loop cs m))) cid = recorded_status m cs cid"
proof (induction cs rule: rev_induct)
  case Nil
  show ?case by (simp add: recorded_status_def)
next
  case (snoc c cs)
  then have keys: "has_keys c" and IH: "map_of (component_statuses (fst (summary_loop cs m))) cid = recorded_status m cs cid"
    by simp_all
  from snoc.prems have "snd (snd (summary_loop cs m)) = None"
    by (simp add: summary_loop_completes)
  then obtain m1 out where run: "summary_loop cs m = (m1, out, None)"
    by (cases "summary_loop cs m") auto
  from keys obtain k st where c: "comp_id c = Some k" "comp_status c = Some st"
    by (auto simp: has_keys_def)
  show ?case
    using IH by (simp add: summary_loop_append run process_component_has_keys keys
        recorded_status_snoc c update_conv')
qed

lemma summary_loop_events:
  "\<forall>c \<in> set cs. has_keys c \<Longrightarrow>
   fst (snd (summary_loop cs m)) =
     concat (map (\<lambda>i. change_of (recorded_status m (take i cs) (the (comp_id (cs ! i)))) (cs ! i))
       [0..<length cs])"
proof (induction cs rule: rev_induct)
  case Nil
  show ?case by simp
next
  case (snoc c cs)
  then have keys: "has_keys c" and all: "\<forall>c \<in> set cs. has_keys c"
    by simp_all
  define F where
    "F = (\<lambda>xs i. change_of (recorded_status m (take i xs) (the (comp_id (xs ! i)))) (xs ! i))"
  from all have "snd (snd (summary_loop cs m)) = None"
    by (simp add: summary_loop_completes)
  then obtain m1 out where run: "summary_loop cs m = (m1, out, None)"
    by (cases "summary_loop cs m") auto
  have st: "map_of (component_statuses m1) k = recorded_status m cs k" for k
    using summary_loop_statuses [OF all, of m k] run by simp
  have out: "out = concat (map (F cs) [0..<length cs])"
    using snoc.IH [OF all] run by (simp add: F_def)
  have same: "map (F (cs @ [c])) [0..<length cs] = map (F cs) [0..<length cs]"
    by (rule map_cong) (simp_all add: F_def nth_append)
  have last: "F (cs @ [c]) (length cs) = change_of (recorded_status m cs (the (comp_id c))) c"
    by (simp add: F_def)
  have "fst (snd (summary_loop (cs @ [c]) m)) =
      out @ change_of (recorded_status m cs (the (comp_id c))) c"
    by (simp add: summary_loop_append run process_component_has_keys keys st)
  also have "\<dots> = concat (map (F (cs @ [c])) [0..<length (cs @ [c])])"
    by (simp add: out same last)
  finally show ?case
    by (simp only: F_def)
qed

lemma change_of_id: "e \<in> set (change_of p c) \<Longrightarrow> comp_id c = Some (event_id e)"
  by (auto simp: change_of_def split: option.splits if_splits)

lemma summary_loop_others:
  "\<forall>c \<in> set cs. has_keys c \<and> comp_id c \<noteq> Some cid \<Longrightarrow>
   filter (\<lambda>e. event_id e = cid) (fst (snd (summary_loop cs m))) = []"
proof (induction cs arbitrary: m)
  case Nil
  show ?case by simp
next
  case (Cons c cs)
  then have keys: "has_keys c" and other: "comp_id c \<noteq> Some cid"
    by simp_all
  have here: "filter (\<lambda>e. event_id e = cid) (change_of p c) = []" for p
    using other by (auto simp: filter_empty_conv dest: change_of_id)
  obtain m1 where step: "process_component c m = (m1, change_of (map_of (component_statuses m) (the (comp_id c))) c, None)"
    using keys by (simp add: process_component_has_keys)
  have rest: "filter (\<lambda>e. event_id e = cid) (fst (snd (summary_loop cs m1))) = []"
    using Cons.IH [of m1] Cons.prems by simp
  show ?case
    using rest here by (auto simp: step split: prod.splits)
qed

lemma recorded_status_others:
  "\<forall>c \<in> set cs. comp_id c \<noteq> Some cid \<Longrightarrow>
   recorded_status m cs cid = map_of (component_statuses m) cid"
proof -
  assume "\<forall>c \<in> set cs. comp_id c \<noteq> Some cid"
  then have "filter (\<lambda>c. comp_id c = Some cid) (rev cs) = []"
    by (simp add: filter_empty_conv)
  then show ?thesis
    by (simp add: recorded_status_def)
qed

lemma summary_loop_run:
  assumes "\<forall>c \<in> set cs. has_keys c"
  shows "\<exists>m' out. summary_loop cs m = (m', out, None)"
proof -
  obtain m' out r where run: "summary_loop cs m = (m', out, r)"
    by (cases "summary_loop cs m") auto
  have "r = None"
    using summary_loop_completes [of cs m] assms run by simp
  with run show ?thesis by simp
qed

section \<open>The loop of \<open>process_incidents\<close>\<close>

lemma update_ids_Inr:
  "update_ids us = Inr U \<Longrightarrow>
   U = {i. \<exists>u \<in> set us. upd_id u = Some i} \<and> (\<forall>u \<in> set us. upd_id u \<noteq> None)"
  by (induction us arbitrary: U) (auto split: option.splits sum.splits)

lemma update_ids_Inl: "update_ids us = Inl e \<Longrightarrow> e = KeyError"
  by (induction us) (auto split: option.splits sum.splits)

lemma update_ids_total:
  "\<forall>u \<in> set us. upd_id u \<noteq> None \<Longrightarrow> \<exists>U. update_ids us = Inr U"
  by (induction us) auto

lemma emit_updates_ids:
  "e \<in> set (fst (emit_updates local_time iid name us)) \<Longrightarrow> event_id e = iid \<and> \<not> is_opened e"
  by (induction us arbitrary: e)
    (auto simp: Let_def split: sum.splits option.splits prod.splits)

lemma emit_updates_completes:
  "name \<noteq> None \<Longrightarrow> \<forall>u \<in> set us. \<not> isl (local_time (replace_Z (dget (upd_created_at u) ''''))) \<Longrightarrow>
   snd (emit_updates local_time iid name us) = None"
  by (induction us) (auto simp: Let_def fmt_time_def split: sum.splits option.splits prod.splits)

lemma emit_updates_blocks:
  "emit_updates local_time iid name us = (out, None) \<Longrightarrow>
   list_all2 (\<lambda>e u. \<exists>n t. name = Some n \<and> local_time (replace_Z (dget (upd_created_at u) '''')) = Inr t \<and>
        e = IncidentUpdated iid n (dget (upd_status u) ''unknown'') (dget (upd_body u) '''') t)
     out us"
  by (induction us arbitrary: out)
    (auto simp: Let_def fmt_time_def split: sum.splits option.splits prod.splits)

lemma process_incident_no_id:
  "inc_id inc = None \<Longrightarrow> process_incident local_time suppress inc m = (m, [], Some KeyError)"
  by (simp add: process_incident_def)

lemma process_incident_no_update_id:
  "inc_id inc = Some iid \<Longrightarrow> update_ids (dget (incident_updates inc) []) = Inl e \<Longrightarrow>
   process_incident local_time suppress inc m = (m, [], Some e)"
  by (simp add: process_incident_def)

lemma process_incident_new:
  assumes "inc_id inc = Some iid"
    and "update_ids (dget (incident_updates inc) []) = Inr U"
    and "map_of (known_incidents m) iid = None"
  shows "process_incident local_time suppress inc m =
    (m\<lparr>known_incidents :=
         AList.update iid
           \<lparr>updated_at = dget (inc_updated_at inc) '''', status = dget (inc_status inc) '''',
            seen_update_ids = U\<rparr>
           (known_incidents m)\<rparr>,
     if suppress then []
     else (case inc_name inc of
             None \<Rightarrow> []
           | Some name \<Rightarrow>
               [IncidentOpened iid name (dget (inc_impact inc) ''none'')
                  (dget (inc_status inc) ''unknown'')
                  (case dget (incident_updates inc) [] of
                     [] \<Rightarrow> '''' | u # _ \<Rightarrow> dget (upd_body u) '''')]),
     if suppress then None
     else (case inc_name inc of None \<Rightarrow> Some KeyError | Some name \<Rightarrow> None))"
  using assms by (simp add: process_incident_def Let_def split: option.splits)

lemma process_incident_seen:
  assumes "inc_id inc = Some iid"
    and "update_ids (dget (incident_updates inc) []) = Inr U"
    and "map_of (known_incidents m) iid = Some known"
    and "U - seen_update_ids known = {}"
  shows "process_incident local_time suppress inc m = (m, [], None)"
  using assms by (simp add: process_incident_def Let_def)

lemma process_incident_updates:
  assumes "inc_id inc = Some iid"
    and "update_ids (dget (incident_updates inc) []) = Inr U"
    and "map_of (known_incidents m) iid = Some known"
    and "U - seen_update_ids known \<noteq> {}"
  shows "process_incident local_time suppress inc m =
    (case emit_updates local_time iid (inc_name inc)
            (sorted_desc (filter (is_new (U - seen_update_ids known))
               (dget (incident_updates inc) []))) of
       (out, Some e) \<Rightarrow> (m, out, Some e)
     | (out, None) \<Rightarrow>
         (m\<lparr>known_incidents :=
              AList.update iid
                (known\<lparr>seen_update_ids := U,
                       updated_at := dget (inc_updated_at inc) '''',
                       status := dget (inc_status inc) ''''\<rparr>)
                (known_incidents m)\<rparr>,
          out, None))"
  using assms by (simp add: process_incident_def Let_def)

text \<open>What every outcome of the loop body has in common.\<close>

lemma process_incident_effect:
  assumes step: "process_incident local_time suppress inc m = (m', out, r)"
  shows "(\<forall>e \<in> set out. inc_id inc = Some (event_id e)) \<and>
         (\<forall>k. inc_id inc \<noteq> Some k \<longrightarrow>
              map_of (known_incidents m') k = map_of (known_incidents m) k) \<and>
         (\<forall>k. map_of (known_incidents m) k \<noteq> None \<longrightarrow>
              map_of (known_incidents m') k \<noteq> None \<and>
              (\<forall>e \<in> set out. \<not> (is_opened e \<and> event_id e = k)))"
proof (cases "inc_id inc")
  case None
  with step show ?thesis by (simp add: process_incident_no_id)
next
  case (Some iid)
  note id = this
  show ?thesis
  proof (cases "update_ids (dget (incident_updates inc) [])")
    case (Inl e)
    with step id show ?thesis by (simp add: process_incident_no_update_id)
  next
    case (Inr U)
    note ids = this
    show ?thesis
    proof (cases "map_of (known_incidents m) iid")
      case None
      show ?thesis
        using step None
        by (auto simp: process_incident_new [OF id ids None] update_conv' id
            split: if_splits option.splits)
    next
      case (Some known)
      note kn = this
      show ?thesis
      proof (cases "U - seen_update_ids known = {}")
        case True
        with step show ?thesis
          by (simp add: process_incident_seen [OF id ids kn True])
      next
        case False
        obtain evs r' where emit: "emit_updates local_time iid (inc_name inc)
            (sorted_desc (filter (is_new (U - seen_update_ids known))
               (dget (incident_updates inc) []))) = (evs, r')"
          by (cases "emit_updates local_time iid (inc_name inc)
            (sorted_desc (filter (is_new (U - seen_update_ids known))
               (dget (incident_updates inc) [])))") auto
        have evs: "\<forall>e \<in> set evs. event_id e = iid \<and> \<not> is_opened e"
          using emit_updates_ids [of _ local_time iid "inc_name inc"] emit
          by (metis fst_conv)
        have out: "out = evs"
          using step emit by (auto simp: process_incident_updates [OF id ids kn False] split: option.splits)
        have st: "m' = m \<or> m' = m\<lparr>known_incidents :=
              AList.update iid
                (known\<lparr>seen_update_ids := U,
                       updated_at := dget (inc_updated_at inc) '''',
                       status := dget (inc_status inc) ''''\<rparr>)
                (known_incidents m)\<rparr>"
          using step emit by (auto simp: process_incident_updates [OF id ids kn False] split: option.splits)
        show ?thesis
          using st evs out id by (auto simp: update_conv')
      qed
    qed
  qed
qed


lemma incidents_loop_append:
  "incidents_loop local_time suppress (xs @ ys) m =
     (case incidents_loop local_time suppress xs m of
        (m1, out, Some e) \<Rightarrow> (m1, out, Some e)
      | (m1, out, None) \<Rightarrow>
          (case incidents_loop local_time suppress ys m1 of (m2, out2, r) \<Rightarrow> (m2, out @ out2, r)))"
  by (induction xs arbitrary: m) (auto split: prod.splits option.splits)

lemma incidents_loop_Cons:
  assumes "incidents_loop local_time suppress (inc # incs) m = (m', out, r)"
  obtains (raised) e where "process_incident local_time suppress inc m = (m', out, Some e)" "r = Some e"
  | (went_on) m1 out1 out2 where "process_incident local_time suppress inc m = (m1, out1, None)"
      "incidents_loop local_time suppress incs m1 = (m', out2, r)" "out = out1 @ out2"
proof -
  obtain m1 out1 r1 where step: "process_incident local_time suppress inc m = (m1, out1, r1)"
    by (cases "process_incident local_time suppress inc m") auto
  show thesis
  proof (cases r1)
    case (Some e)
    with assms step raised show ?thesis by auto
  next
    case None
    obtain m2 out2 r2 where rest: "incidents_loop local_time suppress incs m1 = (m2, out2, r2)"
      by (cases "incidents_loop local_time suppress incs m1") auto
    with assms step None went_on show ?thesis by auto
  qed
qed

lemma incidents_loop_frame:
  "\<forall>inc \<in> set incs. inc_id inc \<noteq> Some iid \<Longrightarrow>
   incidents_loop local_time suppress incs m = (m', out, r) \<Longrightarrow>
   map_of (known_incidents m') iid = map_of (known_incidents m) iid \<and>
   filter (\<lambda>e. event_id e = iid) out = []"
proof (induction incs arbitrary: m m' out r)
  case Nil
  then show ?case by simp
next
  case (Cons inc incs)
  from Cons.prems(1) have other: "inc_id inc \<noteq> Some iid"
    and others: "\<forall>inc \<in> set incs. inc_id inc \<noteq> Some iid"
    by simp_all
  from Cons.prems(2) show ?case
  proof (cases rule: incidents_loop_Cons)
    case (raised e)
    with process_incident_effect [OF raised(1)] other show ?thesis
      by (auto simp: filter_empty_conv)
  next
    case (went_on m1 out1 out2)
    from process_incident_effect [OF went_on(1)] other
    have "map_of (known_incidents m1) iid = map_of (known_incidents m) iid"
      and "filter (\<lambda>e. event_id e = iid) out1 = []"
      by (auto simp: filter_empty_conv)
    with Cons.IH [OF others went_on(2)] went_on(3) show ?thesis
      by simp
  qed
qed

lemma incidents_loop_known:
  "map_of (known_incidents m) iid \<noteq> None \<Longrightarrow>
   incidents_loop local_time suppress incs m = (m', out, r) \<Longrightarrow>
   map_of (known_incidents m') iid \<noteq> None \<and>
   filter (\<lambda>e. is_opened e \<and> event_id e = iid) out = []"
proof (induction incs arbitrary: m m' out r)
  case Nil
  then show ?case by simp
next
  case (Cons inc incs)
  from Cons.prems(2) show ?case
  proof (cases rule: incidents_loop_Cons)
    case (raised e)
    with process_incident_effect [OF raised(1)] Cons.prems(1) show ?thesis
      by (auto simp: filter_empty_conv)
  next
    case (went_on m1 out1 out2)
    from process_incident_effect [OF went_on(1)] Cons.prems(1)
    have "map_of (known_incidents m1) iid \<noteq> None"
      and "filter (\<lambda>e. is_opened e \<and> event_id e = iid) out1 = []"
      by (auto simp: filter_empty_conv)
    with Cons.IH [OF _ went_on(2)] went_on(3) show ?thesis
      by simp
  qed
qed

text \<open>A completed run over a payload, cut at one of its incidents.\<close>

lemma incidents_loop_cut:
  assumes "incidents_loop local_time suppress (pre @ inc # post) m = (m', out, None)"
  obtains m1 out1 m2 out2 out3 where
    "incidents_loop local_time suppress pre m = (m1, out1, None)"
    "process_incident local_time suppress inc m1 = (m2, out2, None)"
    "incidents_loop local_time suppress post m2 = (m', out3, None)"
    "out = out1 @ out2 @ out3"
proof -
  obtain m1 out1 r1 where a: "incidents_loop local_time suppress pre m = (m1, out1, r1)"
    by (cases "incidents_loop local_time suppress pre m") auto
  from assms a have r1: "r1 = None"
    by (auto simp: incidents_loop_append split: option.splits)
  from assms a r1 obtain out' where
    b: "incidents_loop local_time suppress (inc # post) m1 = (m', out', None)" and o: "out = out1 @ out'"
    by (auto simp: incidents_loop_append split: prod.splits simp del: incidents_loop.simps)
  from b show thesis
  proof (cases rule: incidents_loop_Cons)
    case (raised e)
    then show ?thesis by simp
  next
    case (went_on m2 out2 out3)
    with a r1 o that show ?thesis by simp
  qed
qed

text \<open>
  A completed run over a payload that lists the incident \<open>iid\<close> once: what happens to
  this incident is what the loop body does with its descriptor.
\<close>

lemma incidents_loop_once:
  assumes run: "incidents_loop local_time suppress (pre @ inc # post) m = (m', out, None)"
    and id: "inc_id inc = Some iid"
    and pre: "\<forall>x \<in> set pre. inc_id x \<noteq> Some iid"
    and post: "\<forall>x \<in> set post. inc_id x \<noteq> Some iid"
  obtains m1 m2 where
    "map_of (known_incidents m1) iid = map_of (known_incidents m) iid"
    "process_incident local_time suppress inc m1 = (m2, filter (\<lambda>e. event_id e = iid) out, None)"
    "map_of (known_incidents m') iid = map_of (known_incidents m2) iid"
proof -
  from run obtain m1 out1 m2 out2 out3 where
    a: "incidents_loop local_time suppress pre m = (m1, out1, None)" and
    b: "process_incident local_time suppress inc m1 = (m2, out2, None)" and
    c: "incidents_loop local_time suppress post m2 = (m', out3, None)" and
    o: "out = out1 @ out2 @ out3"
    by (rule incidents_loop_cut)
  note fa = incidents_loop_frame [OF pre a]
  note fc = incidents_loop_frame [OF post c]
  have "filter (\<lambda>e. event_id e = iid) out2 = out2"
    using process_incident_effect [OF b] id by (auto simp: filter_id_conv)
  with fa fc o have "filter (\<lambda>e. event_id e = iid) out = out2"
    by simp
  with fa fc b that show thesis
    by metis
qed


lemma process_incident_nothing_new:
  assumes id: "inc_id inc = Some iid"
    and kn: "map_of (known_incidents m) iid = Some known"
    and old: "\<forall>u \<in> set (dget (incident_updates inc) []). \<forall>i. upd_id u = Some i \<longrightarrow> i \<in> seen_update_ids known"
  shows "\<exists>r. process_incident local_time suppress inc m = (m, [], r)"
proof (cases "update_ids (dget (incident_updates inc) [])")
  case (Inl e)
  then show ?thesis
    using id by (simp add: process_incident_no_update_id)
next
  case (Inr U)
  have "U - seen_update_ids known = {}"
    using update_ids_Inr [OF Inr] old by auto
  then show ?thesis
    using process_incident_seen [OF id Inr kn] by simp
qed

lemma incidents_loop_nothing_new:
  "map_of (known_incidents m) iid = Some known \<Longrightarrow>
   \<forall>inc \<in> set incs. inc_id inc = Some iid \<longrightarrow>
      (\<forall>u \<in> set (dget (incident_updates inc) []). \<forall>i. upd_id u = Some i \<longrightarrow> i \<in> seen_update_ids known) \<Longrightarrow>
   incidents_loop local_time suppress incs m = (m', out, r) \<Longrightarrow>
   map_of (known_incidents m') iid = Some known \<and> filter (\<lambda>e. event_id e = iid) out = []"
proof (induction incs arbitrary: m m' out r)
  case Nil
  then show ?case by simp
next
  case (Cons inc incs)
  have step: "map_of (known_incidents m1) iid = Some known \<and> filter (\<lambda>e. event_id e = iid) out1 = []"
    if "process_incident local_time suppress inc m = (m1, out1, r1)" for m1 out1 r1
  proof (cases "inc_id inc = Some iid")
    case True
    with Cons.prems(2) have "\<forall>u \<in> set (dget (incident_updates inc) []). \<forall>i. upd_id u = Some i \<longrightarrow> i \<in> seen_update_ids known"
      by simp
    from process_incident_nothing_new [OF True Cons.prems(1) this, of local_time suppress] that
    show ?thesis
      using Cons.prems(1) by auto
  next
    case False
    with process_incident_effect [OF that] Cons.prems(1) show ?thesis
      by (auto simp: filter_empty_conv)
  qed
  from Cons.prems(3) show ?case
  proof (cases rule: incidents_loop_Cons)
    case (raised e)
    with step [OF raised(1)] show ?thesis by simp
  next
    case (went_on m1 out1 out2)
    from step [OF went_on(1)] have kn1: "map_of (known_incidents m1) iid = Some known"
      and o1: "filter (\<lambda>e. event_id e = iid) out1 = []"
      by simp_all
    from Cons.prems(2) have rest: "\<forall>inc \<in> set incs. inc_id inc = Some iid \<longrightarrow>
      (\<forall>u \<in> set (dget (incident_updates inc) []). \<forall>i. upd_id u = Some i \<longrightarrow> i \<in> seen_update_ids known)"
      by simp
    from Cons.IH [OF kn1 rest went_on(2)] o1 went_on(3) show ?thesis
      by simp
  qed
qed


lemma process_incident_returned_ids:
  assumes "process_incident local_time suppress inc m = (m', out, None)"
  obtains iid U where "inc_id inc = Some iid" "update_ids (dget (incident_updates inc) []) = Inr U"
proof (cases "inc_id inc")
  case None
  with assms show ?thesis by (simp add: process_incident_no_id)
next
  case (Some iid)
  show ?thesis
  proof (cases "update_ids (dget (incident_updates inc) [])")
    case (Inl e)
    with assms Some show ?thesis by (simp add: process_incident_no_update_id)
  next
    case (Inr U)
    with Some that show ?thesis by simp
  qed
qed


text \<open>The definitions that evaluate the model on the example payloads.\<close>

lemmas example_defs = m_known_def init_monitor_def incident_record_def inc_fresh_def inc_same_def
  inc_more_def inc_dropped_def incident_def u_a_def u_b_def u_c_def u_d_def update_def

lemmas model_defs = process_incidents_def process_incident_def dget_def Let_def
  sorted_desc_def created_key_def is_new_def fmt_time_def


lemma sorted_desc_mset: "mset (sorted_desc us) = mset us"
  by (simp add: sorted_desc_def)

lemma sorted_desc_sorted:
  "sorted_wrt (\<lambda>a b. created_key b \<le> created_key a) (sorted_desc us)"
proof -
  have "sorted (map created_key (sort_key created_key (rev us)))"
    by (rule sorted_sort_key)
  then have "sorted_wrt (\<lambda>a b. created_key a \<le> created_key b) (sort_key created_key (rev us))"
    by (simp add: sorted_wrt_map)
  then show ?thesis
    by (simp add: sorted_desc_def sorted_wrt_rev)
qed

lemma filter_is_new:
  assumes "update_ids us = Inr U"
  shows "filter (is_new (U - S)) us = filter (\<lambda>u. \<exists>i. upd_id u = Some i \<and> i \<notin> S) us"
proof (rule filter_cong)
  fix u assume "u \<in> set us"
  with update_ids_Inr [OF assms]
  show "is_new (U - S) u = (\<exists>i. upd_id u = Some i \<and> i \<notin> S)"
    by (auto simp: is_new_def split: option.splits)
qed simp

text \<open>A completed run over a payload that lists a tracked incident once, with a new update.\<close>

lemma incidents_loop_new_updates:
  assumes run: "incidents_loop local_time suppress (pre @ inc # post) m = (m', out, None)"
    and id: "inc_id inc = Some iid"
    and pre: "\<forall>x \<in> set pre. inc_id x \<noteq> Some iid"
    and post: "\<forall>x \<in> set post. inc_id x \<noteq> Some iid"
    and known: "map_of (known_incidents m) iid = Some known"
    and new: "\<exists>u \<in> set (dget (incident_updates inc) []).
                \<exists>i. upd_id u = Some i \<and> i \<notin> seen_update_ids known"
  shows "emit_updates local_time iid (inc_name inc)
           (sorted_desc (filter (\<lambda>u. \<exists>i. upd_id u = Some i \<and> i \<notin> seen_update_ids known)
              (dget (incident_updates inc) []))) =
           (filter (\<lambda>e. event_id e = iid) out, None)"
    and "map_of (known_incidents m') iid =
           Some (known\<lparr>seen_update_ids :=
                          {i. \<exists>u \<in> set (dget (incident_updates inc) []). upd_id u = Some i},
                        updated_at := dget (inc_updated_at inc) '''',
                        status := dget (inc_status inc) ''''\<rparr>)"
proof -
  let ?us = "dget (incident_updates inc) []"
  from run id pre post obtain m1 m2 where
    same: "map_of (known_incidents m1) iid = map_of (known_incidents m) iid" and
    step: "process_incident local_time suppress inc m1 = (m2, filter (\<lambda>e. event_id e = iid) out, None)" and
    kept: "map_of (known_incidents m') iid = map_of (known_incidents m2) iid"
    by (rule incidents_loop_once)
  from step id obtain U where ids: "update_ids ?us = Inr U"
    by (auto elim: process_incident_returned_ids)
  note U = update_ids_Inr [OF ids]
  from same known have kn: "map_of (known_incidents m1) iid = Some known"
    by simp
  from new U have ne: "U - seen_update_ids known \<noteq> {}"
    by auto
  obtain evs r where emit: "emit_updates local_time iid (inc_name inc)
      (sorted_desc (filter (is_new (U - seen_update_ids known)) ?us)) = (evs, r)"
    by (cases "emit_updates local_time iid (inc_name inc)
      (sorted_desc (filter (is_new (U - seen_update_ids known)) ?us))") auto
  from step have r: "r = None" and evs: "evs = filter (\<lambda>e. event_id e = iid) out"
    and m2: "m2 = m1\<lparr>known_incidents :=
              AList.update iid
                (known\<lparr>seen_update_ids := U,
                       updated_at := dget (inc_updated_at inc) '''',
                       status := dget (inc_status inc) ''''\<rparr>)
                (known_incidents m1)\<rparr>"
    unfolding process_incident_updates [OF id ids kn ne] emit
    by (auto split: option.splits)
  from emit r evs show "emit_updates local_time iid (inc_name inc)
           (sorted_desc (filter (\<lambda>u. \<exists>i. upd_id u = Some i \<and> i \<notin> seen_update_ids known) ?us)) =
           (filter (\<lambda>e. event_id e = iid) out, None)"
    by (simp add: filter_is_new [OF ids])
  from kept m2 U show "map_of (known_incidents m') iid =
           Some (known\<lparr>seen_update_ids := {i. \<exists>u \<in> set ?us. upd_id u = Some i},
                        updated_at := dget (inc_updated_at inc) '''',
                        status := dget (inc_status inc) ''''\<rparr>)"
    by (simp add: update_conv')
qed


lemma set_sorted_desc: "set (sorted_desc us) = set us"
  by (simp add: sorted_desc_def)




section \<open>The monitor and the server, side by side\<close>

lemma map_update_values:
  "map (\<lambda>(k, r). (k, g r)) (AList.update k v al) =
   AList.update k (g v) (map (\<lambda>(k, r). (k, g r)) al)"
  by (induction al) auto

lemma map_of_map_values:
  "map_of (map (\<lambda>(k, r). (k, g r)) al) k = map_option g (map_of al k)"
  by (induction al) auto

lemma tracked_simps [simp]:
  "sv_first_run (tracked m) = first_run m"
  "sv_component_statuses (tracked m) = component_statuses m"
  "map_of (sv_known_incidents (tracked m)) k = map_option tracked_incident (map_of (known_incidents m) k)"
  by (simp_all add: tracked_def map_of_map_values)

lemma tracked_update_incident:
  "(tracked m)\<lparr>sv_known_incidents := AList.update k (tracked_incident r) (sv_known_incidents (tracked m))\<rparr> =
   tracked (m\<lparr>known_incidents := AList.update k r (known_incidents m)\<rparr>)"
  by (simp add: tracked_def map_update_values)

lemma tracked_update_status:
  "(tracked m)\<lparr>sv_component_statuses := al\<rparr> = tracked (m\<lparr>component_statuses := al\<rparr>)"
  "tracked (m\<lparr>component_names := ns\<rparr>) = tracked m"
  "tracked (m\<lparr>first_run := b\<rparr>) = (tracked m)\<lparr>sv_first_run := b\<rparr>"
  by (simp_all add: tracked_def)

lemma log_updates_emit_updates:
  "\<forall>u \<in> set us. complete_update local_time u \<Longrightarrow>
   log_updates local_time name us =
     (map log_of (fst (emit_updates local_time iid name us)), snd (emit_updates local_time iid name us))"
  by (induction us)
    (auto simp: complete_update_def Let_def dget_def fmt_time_def
      split: option.splits prod.splits sum.splits)

lemma process_incident_first_run:
  "process_incident local_time suppress inc m = (m', out, r) \<Longrightarrow> first_run m' = first_run m"
  by (auto simp: process_incident_def Let_def split: option.splits sum.splits prod.splits if_splits)

lemma log_incident_process_incident:
  assumes ok: "complete_incident local_time inc"
  shows "\<exists>m' out. process_incident local_time (first_run m) inc m = (m', out, None) \<and>
           log_incident local_time inc (tracked m) = (tracked m', map log_of out, None)"
proof -
  let ?us = "dget (incident_updates inc) []"
  from ok obtain iid name st where id: "inc_id inc = Some iid" and name: "inc_name inc = Some name"
    and st: "inc_status inc = Some st"
    by (auto simp: complete_incident_def)
  from ok have us: "\<forall>u \<in> set ?us. complete_update local_time u"
    by (simp add: complete_incident_def list_all_iff)
  then have "\<forall>u \<in> set ?us. upd_id u \<noteq> None"
    by (simp add: complete_update_def)
  then obtain U where ids: "update_ids ?us = Inr U"
    using update_ids_total [of ?us] by auto
  have dst: "dget (inc_status inc) '''' = st" "dget (inc_status inc) ''unknown'' = st"
    by (simp_all add: st dget_def)
  show ?thesis
  proof (cases "map_of (known_incidents m) iid")
    case None
    have "log_incident local_time inc (tracked m) =
        ((tracked m)\<lparr>sv_known_incidents :=
            AList.update iid
              (tracked_incident \<lparr>updated_at = dget (inc_updated_at inc) '''', status = st,
                 seen_update_ids = U\<rparr>)
              (sv_known_incidents (tracked m))\<rparr>,
         if first_run m then [] else [NewIncident name (dget (inc_impact inc) ''none'') st], None)"
      using None by (simp add: log_incident_def Let_def id ids name dst tracked_incident_def)
    then show ?thesis
      unfolding tracked_update_incident
      by (simp add: process_incident_new [OF id ids None] name dst)
  next
    case (Some known)
    note kn = this
    show ?thesis
    proof (cases "U - seen_update_ids known = {}")
      case True
      have "log_incident local_time inc (tracked m) = (tracked m, [], None)"
        using True by (simp add: log_incident_def Let_def id ids kn tracked_incident_def)
      then show ?thesis
        by (simp add: process_incident_seen [OF id ids kn True])
    next
      case False
      let ?new = "sorted_desc (filter (is_new (U - seen_update_ids known)) ?us)"
      have new: "\<forall>u \<in> set ?new. complete_update local_time u"
        using us by (simp add: set_sorted_desc)
      then have "\<forall>u \<in> set ?new. \<not> isl (local_time (replace_Z (dget (upd_created_at u) '''')))"
        by (auto simp: complete_update_def dget_def split: option.splits)
      then have fin: "snd (emit_updates local_time iid (inc_name inc) ?new) = None"
        by (intro emit_updates_completes) (simp add: name)
      then obtain out where emit: "emit_updates local_time iid (inc_name inc) ?new = (out, None)"
        by (cases "emit_updates local_time iid (inc_name inc) ?new") auto
      have logs: "log_updates local_time (inc_name inc) ?new = (map log_of out, None)"
        using log_updates_emit_updates [OF new, of "inc_name inc" iid] emit by simp
      have "log_incident local_time inc (tracked m) =
        ((tracked m)\<lparr>sv_known_incidents :=
            AList.update iid
              (tracked_incident (known\<lparr>seen_update_ids := U,
                  updated_at := dget (inc_updated_at inc) '''', status := st\<rparr>))
              (sv_known_incidents (tracked m))\<rparr>,
         map log_of out, None)"
        using False logs
        by (simp add: log_incident_def Let_def id ids kn dst tracked_incident_def)
      then show ?thesis
        unfolding tracked_update_incident
        by (simp add: process_incident_updates [OF id ids kn False] emit dst)
    qed
  qed
qed

lemma log_incidents_incidents_loop:
  "\<forall>inc \<in> set incs. complete_incident local_time inc \<Longrightarrow>
   \<exists>m' out. incidents_loop local_time (first_run m) incs m = (m', out, None) \<and>
     first_run m' = first_run m \<and>
     component_statuses m' = component_statuses m \<and>
     log_incidents local_time incs (tracked m) = (tracked m', map log_of out, None)"
proof (induction incs arbitrary: m)
  case Nil
  show ?case by simp
next
  case (Cons inc incs)
  then have ok: "complete_incident local_time inc" and oks: "\<forall>inc \<in> set incs. complete_incident local_time inc"
    by simp_all
  from log_incident_process_incident [OF ok, of m] obtain m1 out1 where
    a: "process_incident local_time (first_run m) inc m = (m1, out1, None)" and
    b: "log_incident local_time inc (tracked m) = (tracked m1, map log_of out1, None)"
    by blast
  have fr: "first_run m1 = first_run m"
    using process_incident_first_run [OF a] .
  have cs: "component_statuses m1 = component_statuses m"
    using a by (auto simp: process_incident_def Let_def split: option.splits sum.splits prod.splits if_splits)
  from Cons.IH [OF oks, of m1] obtain m2 out2 where
    c: "incidents_loop local_time (first_run m1) incs m1 = (m2, out2, None)" and
    d: "first_run m2 = first_run m1" "component_statuses m2 = component_statuses m1" and
    e: "log_incidents local_time incs (tracked m1) = (tracked m2, map log_of out2, None)"
    by blast
  show ?case
    using a b c d e fr cs by simp
qed

lemma diff_component_process_component:
  assumes ok: "complete_component c"
    and filled: "\<forall>k. map_of (component_statuses m) k \<noteq> Some ''''"
  shows "\<exists>m' out. process_component c m = (m', out, None) \<and>
           first_run m' = first_run m \<and> known_incidents m' = known_incidents m \<and>
           (\<forall>k. map_of (component_statuses m') k \<noteq> Some '''') \<and>
           diff_component c (tracked m) = (tracked m', map log_of out, None)"
proof -
  from ok obtain cid name st where c: "comp_id c = Some cid" "comp_name c = Some name"
    "comp_status c = Some st" and st: "st \<noteq> ''''"
    by (auto simp: complete_component_def)
  have keys: "has_keys c"
    by (simp add: has_keys_def c)
  let ?m' = "m\<lparr>component_names := AList.update cid name (component_names m),
        component_statuses := AList.update cid st (component_statuses m)\<rparr>"
  have step: "process_component c m = (?m', change_of (map_of (component_statuses m) cid) c, None)"
    using process_component_has_keys [OF keys, of m] by (simp add: c)
  have tr: "tracked ?m' =
      (tracked m)\<lparr>sv_component_statuses := AList.update cid st (component_statuses m)\<rparr>"
    by (simp add: tracked_def)
  have filled': "\<forall>k. map_of (component_statuses ?m') k \<noteq> Some ''''"
    using filled st by (simp add: update_conv')
  have "diff_component c (tracked m) =
      (tracked ?m', map log_of (change_of (map_of (component_statuses m) cid) c), None)"
  proof (cases "map_of (component_statuses m) cid")
    case None
    then show ?thesis
      by (simp add: diff_component_def store_status_def c change_of_def tr)
  next
    case (Some old)
    with filled have "old \<noteq> ''''"
      by metis
    with Some show ?thesis
      by (simp add: diff_component_def store_status_def c change_of_def tr)
  qed
  with step filled' show ?thesis
    by simp
qed

lemma diff_components_summary_loop:
  "\<forall>c \<in> set cs. complete_component c \<Longrightarrow>
   \<forall>k. map_of (component_statuses m) k \<noteq> Some '''' \<Longrightarrow>
   \<exists>m' out. summary_loop cs m = (m', out, None) \<and>
     first_run m' = first_run m \<and> known_incidents m' = known_incidents m \<and>
     (\<forall>k. map_of (component_statuses m') k \<noteq> Some '''') \<and>
     diff_components cs (tracked m) = (tracked m', map log_of out, None)"
proof (induction cs arbitrary: m)
  case Nil
  then show ?case by simp
next
  case (Cons c cs)
  then have ok: "complete_component c" and oks: "\<forall>c \<in> set cs. complete_component c"
    by simp_all
  from diff_component_process_component [OF ok Cons.prems(2)] obtain m1 out1 where
    a: "process_component c m = (m1, out1, None)" and
    b: "first_run m1 = first_run m" "known_incidents m1 = known_incidents m" and
    f: "\<forall>k. map_of (component_statuses m1) k \<noteq> Some ''''" and
    d: "diff_component c (tracked m) = (tracked m1, map log_of out1, None)"
    by blast
  from Cons.IH [OF oks f] obtain m2 out2 where
    e: "summary_loop cs m1 = (m2, out2, None)" and
    g: "first_run m2 = first_run m1" "known_incidents m2 = known_incidents m1"
      "\<forall>k. map_of (component_statuses m2) k \<noteq> Some ''''" and
    h: "diff_components cs (tracked m1) = (tracked m2, map log_of out2, None)"
    by blast
  show ?case
    using a b d e g h by simp
qed

lemma load_components_summary_loop:
  "\<forall>c \<in> set cs. complete_component c \<Longrightarrow>
   distinct (map comp_id cs) \<Longrightarrow>
   \<forall>c \<in> set cs. \<forall>k. comp_id c = Some k \<longrightarrow> map_of (component_statuses m) k = None \<Longrightarrow>
   \<forall>k. map_of (component_statuses m) k \<noteq> Some '''' \<Longrightarrow>
   \<exists>m'. summary_loop cs m = (m', [], None) \<and>
     first_run m' = first_run m \<and> known_incidents m' = known_incidents m \<and>
     (\<forall>k. map_of (component_statuses m') k \<noteq> Some '''') \<and>
     load_components cs (tracked m) = (tracked m', [], None)"
proof (induction cs arbitrary: m)
  case Nil
  then show ?case by simp
next
  case (Cons c cs)
  then have ok: "complete_component c" and oks: "\<forall>c \<in> set cs. complete_component c"
    and dist: "distinct (map comp_id cs)" and first: "comp_id c \<notin> comp_id ` set cs"
    by simp_all
  from ok obtain cid name st where c: "comp_id c = Some cid" "comp_name c = Some name"
    "comp_status c = Some st" and st: "st \<noteq> ''''"
    by (auto simp: complete_component_def)
  have keys: "has_keys c"
    by (simp add: has_keys_def c)
  let ?m1 = "m\<lparr>component_names := AList.update cid name (component_names m),
        component_statuses := AList.update cid st (component_statuses m)\<rparr>"
  have unseen: "map_of (component_statuses m) cid = None"
    using Cons.prems(3) c by simp
  have step: "process_component c m = (?m1, [], None)"
    using process_component_has_keys [OF keys, of m] unseen by (simp add: c change_of_def)
  have tr: "tracked ?m1 =
      (tracked m)\<lparr>sv_component_statuses := AList.update cid st (component_statuses m)\<rparr>"
    by (simp add: tracked_def)
  have unseen1: "\<forall>c' \<in> set cs. \<forall>k. comp_id c' = Some k \<longrightarrow> map_of (component_statuses ?m1) k = None"
  proof (intro ballI allI impI)
    fix c' k assume c': "c' \<in> set cs" and k: "comp_id c' = Some k"
    with first c have "k \<noteq> cid"
      by force
    moreover have "map_of (component_statuses m) k = None"
      using Cons.prems(3) c' k by simp
    ultimately show "map_of (component_statuses ?m1) k = None"
      by (simp add: update_conv')
  qed
  have filled1: "\<forall>k. map_of (component_statuses ?m1) k \<noteq> Some ''''"
    using Cons.prems(4) st by (simp add: update_conv')
  from Cons.IH [OF oks dist unseen1 filled1] obtain m2 where
    e: "summary_loop cs ?m1 = (m2, [], None)" and
    g: "first_run m2 = first_run ?m1" "known_incidents m2 = known_incidents ?m1"
      "\<forall>k. map_of (component_statuses m2) k \<noteq> Some ''''" and
    h: "load_components cs (tracked ?m1) = (tracked m2, [], None)"
    by blast
  have "load_components (c # cs) (tracked m) = (tracked m2, [], None)"
    using h by (simp add: c tr)
  with step e g show ?case
    by simp
qed

lemma poll_poll_iteration:
  assumes ok: "complete_poll local_time (sdata, idata)"
    and filled: "filled m"
    and fresh: "first_run m \<longrightarrow> component_statuses m = [] \<and> first_summary_distinct [(sdata, idata)]"
  shows "\<exists>m' out. poll local_time sdata idata m = (m', out, None) \<and>
           \<not> first_run m' \<and> filled m' \<and>
           poll_iteration local_time sdata idata (tracked m) = (tracked m', map log_of out, None)"
proof -
  have "\<exists>m1 out1.
      (case sdata of None \<Rightarrow> (m, [], None) | Some d \<Rightarrow> process_summary d m) = (m1, out1, None) \<and>
      first_run m1 = first_run m \<and> filled m1 \<and>
      (case sdata of
         None \<Rightarrow> (tracked m, [], None)
       | Some d \<Rightarrow>
           if sv_first_run (tracked m) then load_components (dget (components d) []) (tracked m)
           else diff_components (dget (components d) []) (tracked m)) =
        (tracked m1, map log_of out1, None)"
  proof (cases sdata)
    case None
    with filled show ?thesis by simp
  next
    case (Some d)
    let ?cs = "dget (components d) []"
    from ok Some have cs: "\<forall>c \<in> set ?cs. complete_component c"
      by (simp add: complete_poll_def list_all_iff)
    from filled have fl: "\<forall>k. map_of (component_statuses m) k \<noteq> Some ''''"
      by (simp add: filled_def)
    show ?thesis
    proof (cases "first_run m")
      case True
      with fresh Some have empty: "component_statuses m = []" and dist: "distinct (map comp_id ?cs)"
        by (simp_all add: first_summary_distinct_def)
      from empty have unseen: "\<forall>c \<in> set ?cs. \<forall>k. comp_id c = Some k \<longrightarrow> map_of (component_statuses m) k = None"
        by simp
      from load_components_summary_loop [OF cs dist unseen fl] obtain m1 where
        "summary_loop ?cs m = (m1, [], None)" "first_run m1 = first_run m"
        "\<forall>k. map_of (component_statuses m1) k \<noteq> Some ''''"
        "load_components ?cs (tracked m) = (tracked m1, [], None)"
        by blast
      with Some True show ?thesis
        by (simp add: process_summary_def filled_def)
    next
      case False
      from diff_components_summary_loop [OF cs fl] obtain m1 out1 where
        "summary_loop ?cs m = (m1, out1, None)" "first_run m1 = first_run m"
        "\<forall>k. map_of (component_statuses m1) k \<noteq> Some ''''"
        "diff_components ?cs (tracked m) = (tracked m1, map log_of out1, None)"
        by blast
      with Some False show ?thesis
        by (simp add: process_summary_def filled_def)
    qed
  qed
  then obtain m1 out1 where
    a: "(case sdata of None \<Rightarrow> (m, [], None) | Some d \<Rightarrow> process_summary d m) = (m1, out1, None)" and
    a': "first_run m1 = first_run m" "filled m1" and
    b: "(case sdata of
         None \<Rightarrow> (tracked m, [], None)
       | Some d \<Rightarrow>
           if sv_first_run (tracked m) then load_components (dget (components d) []) (tracked m)
           else diff_components (dget (components d) []) (tracked m)) =
        (tracked m1, map log_of out1, None)"
    by blast
  have "\<exists>m2 out2.
      (case idata of None \<Rightarrow> (m1, [], None)
       | Some d \<Rightarrow> process_incidents local_time d (first_run m1) m1) = (m2, out2, None) \<and>
      filled m2 \<and>
      (case idata of None \<Rightarrow> (tracked m1, [], None)
       | Some d \<Rightarrow> log_incidents local_time (dget (incidents d) []) (tracked m1)) =
        (tracked m2, map log_of out2, None)"
  proof (cases idata)
    case None
    with a' show ?thesis by simp
  next
    case (Some d)
    from ok Some have incs: "\<forall>inc \<in> set (dget (incidents d) []). complete_incident local_time inc"
      by (simp add: complete_poll_def list_all_iff)
    from log_incidents_incidents_loop [OF incs, of m1] obtain m2 out2 where
      "incidents_loop local_time (first_run m1) (dget (incidents d) []) m1 = (m2, out2, None)"
      "component_statuses m2 = component_statuses m1"
      "log_incidents local_time (dget (incidents d) []) (tracked m1) = (tracked m2, map log_of out2, None)"
      by blast
    with Some a' show ?thesis
      by (simp add: process_incidents_def filled_def)
  qed
  then obtain m2 out2 where
    c: "(case idata of None \<Rightarrow> (m1, [], None)
       | Some d \<Rightarrow> process_incidents local_time d (first_run m1) m1) = (m2, out2, None)" and
    c': "filled m2" and
    d: "(case idata of None \<Rightarrow> (tracked m1, [], None)
       | Some d \<Rightarrow> log_incidents local_time (dget (incidents d) []) (tracked m1)) =
        (tracked m2, map log_of out2, None)"
    by blast
  have "poll local_time sdata idata m = (m2\<lparr>first_run := False\<rparr>, out1 @ out2, None)"
    unfolding poll_def a by (simp add: c)
  moreover have "poll_iteration local_time sdata idata (tracked m) =
      (tracked (m2\<lparr>first_run := False\<rparr>), map log_of (out1 @ out2), None)"
    unfolding poll_iteration_def b by (simp add: d tracked_update_status)
  moreover have "filled (m2\<lparr>first_run := False\<rparr>)"
    using c' by (simp add: filled_def)
  ultimately show ?thesis
    by simp
qed

lemma run_poll_loop:
  "\<forall>p \<in> set polls. complete_poll local_time p \<Longrightarrow> filled m \<Longrightarrow>
   first_run m \<longrightarrow> component_statuses m = [] \<and> first_summary_distinct polls \<Longrightarrow>
   poll_loop local_time polls (tracked m) =
     (tracked (fst (run local_time polls m)), map log_of (snd (run local_time polls m)), None)"
proof (induction polls arbitrary: m)
  case Nil
  show ?case by simp
next
  case (Cons p polls)
  obtain sdata idata where p: "p = (sdata, idata)"
    by (cases p)
  from Cons.prems(1) p have ok: "complete_poll local_time (sdata, idata)"
    and oks: "\<forall>p \<in> set polls. complete_poll local_time p"
    by simp_all
  from Cons.prems(3) p have fresh: "first_run m \<longrightarrow>
      component_statuses m = [] \<and> first_summary_distinct [(sdata, idata)]"
    by (auto simp: first_summary_distinct_def split: option.splits)
  from poll_poll_iteration [OF ok Cons.prems(2) fresh] obtain m1 out1 where
    a: "poll local_time sdata idata m = (m1, out1, None)" and
    b: "\<not> first_run m1" "filled m1" and
    c: "poll_iteration local_time sdata idata (tracked m) = (tracked m1, map log_of out1, None)"
    by blast
  from b have "first_run m1 \<longrightarrow> component_statuses m1 = [] \<and> first_summary_distinct polls"
    by simp
  from Cons.IH [OF oks b(2) this]
  have rest: "poll_loop local_time polls (tracked m1) =
      (tracked (fst (run local_time polls m1)), map log_of (snd (run local_time polls m1)), None)" .
  show ?case
    by (simp add: p a c rest split: prod.splits)
qed


section \<open>Properties of \<open>get_interval\<close>\<close>

text \<open>
  Claim C7. \<open>get_interval\<close> returns the fixed interval whenever one is configured.
  Without one it returns the active interval, 15, when some tracked incident has a
  stored status that is neither \<open>resolved\<close> nor \<open>postmortem\<close>, and the calm
  interval, 60, otherwise; with no tracked incident it returns 60. The method assigns
  to nothing, so it is a function of the monitor alone: two calls on the same monitor
  return the same value.
\<close>

theorem get_interval_spec:
  "(\<forall>i. interval m = Some i \<longrightarrow> get_interval m = i) \<and>
   (interval m = None \<longrightarrow>
      get_interval m =
        (if \<exists>(k, v) \<in> set (known_incidents m).
              status v \<noteq> ''resolved'' \<and> status v \<noteq> ''postmortem''
         then 15 else 60)) \<and>
   (interval m = None \<and> known_incidents m = [] \<longrightarrow> get_interval m = 60)"
  by (auto simp: get_interval_def is_active_def list_ex_iff CALM_INTERVAL_def
      ACTIVE_INTERVAL_def)

theorem get_interval_spec_witness:
  "get_interval ((init_monitor (Some 5))
      \<lparr>known_incidents := [(''1'', incident_record ''t'' ''investigating'' {})]\<rparr>) = 5 \<and>
   get_interval ((init_monitor None)
      \<lparr>known_incidents := [(''1'', incident_record ''t'' ''resolved'' {}),
                           (''2'', incident_record ''t'' ''monitoring'' {})]\<rparr>) = 15 \<and>
   get_interval ((init_monitor None)
      \<lparr>known_incidents := [(''1'', incident_record ''t'' ''resolved'' {}),
                           (''2'', incident_record ''t'' ''postmortem'' {})]\<rparr>) = 60 \<and>
   get_interval (init_monitor None) = 60"
  using
    get_interval_spec [of "(init_monitor (Some 5))
      \<lparr>known_incidents := [(''1'', incident_record ''t'' ''investigating'' {})]\<rparr>"]
    get_interval_spec [of "(init_monitor None)
      \<lparr>known_incidents := [(''1'', incident_record ''t'' ''resolved'' {}),
                           (''2'', incident_record ''t'' ''monitoring'' {})]\<rparr>"]
    get_interval_spec [of "(init_monitor None)
      \<lparr>known_incidents := [(''1'', incident_record ''t'' ''resolved'' {}),
                           (''2'', incident_record ''t'' ''postmortem'' {})]\<rparr>"]
    get_interval_spec [of "init_monitor None"]
  by (simp add: init_monitor_def incident_record_def)

section \<open>Properties of \<open>process_summary\<close>\<close>

text \<open>
  Claim C3. On a payload whose descriptors have their three keys, \<open>process_summary\<close>
  returns normally, and its events are, descriptor by descriptor and in the order of the
  payload, what \<open>change_of\<close> asks for the status on record when the descriptor is
  reached: an event exactly when a status is on record for the descriptor's id and
  differs from the descriptor's status, carrying the old status, the new status and the
  descriptor's name; nothing on a first observation or an unchanged status. Afterwards
  every id of the payload has its last delivered status on record.
\<close>

theorem process_summary_events:
  assumes "\<forall>c \<in> set cs. comp_id c \<noteq> None \<and> comp_name c \<noteq> None \<and> comp_status c \<noteq> None"
  shows "snd (snd (process_summary \<lparr>components = Some cs\<rparr> m)) = None \<and>
         fst (snd (process_summary \<lparr>components = Some cs\<rparr> m)) =
           concat (map (\<lambda>i. change_of (recorded_status m (take i cs) (the (comp_id (cs ! i)))) (cs ! i))
             [0..<length cs]) \<and>
         (\<forall>cid. map_of (component_statuses (fst (process_summary \<lparr>components = Some cs\<rparr> m))) cid =
            recorded_status m cs cid)"
proof -
  from assms have all: "\<forall>c \<in> set cs. has_keys c"
    by (simp add: has_keys_def)
  show ?thesis
    using summary_loop_completes [of cs m] summary_loop_events [OF all, of m]
      summary_loop_statuses [OF all, of m] all
    by (simp add: process_summary_def dget_def)
qed

theorem process_summary_events_witness:
  "snd (snd (process_summary \<lparr>components = Some cs_poll\<rparr> m_seen)) = None \<and>
   fst (snd (process_summary \<lparr>components = Some cs_poll\<rparr> m_seen)) =
     [ComponentStatusChanged ''x'' ''API'' ''operational'' ''major_outage''] \<and>
   map_of (component_statuses (fst (process_summary \<lparr>components = Some cs_poll\<rparr> m_seen))) ''z'' =
     Some ''degraded_performance''"
proof -
  have keys: "\<forall>c \<in> set cs_poll. comp_id c \<noteq> None \<and> comp_name c \<noteq> None \<and> comp_status c \<noteq> None"
    by (simp add: cs_poll_def component_def)
  have len: "[0..<length cs_poll] = [0, 1, 2]"
    by (simp add: cs_poll_def upt_rec)
  have ev: "concat (map (\<lambda>i. change_of (recorded_status m_seen (take i cs_poll) (the (comp_id (cs_poll ! i)))) (cs_poll ! i))
             [0..<length cs_poll]) = [ComponentStatusChanged ''x'' ''API'' ''operational'' ''major_outage'']"
    unfolding len
    by (simp add: cs_poll_def component_def recorded_status_def change_of_def m_seen_def init_monitor_def)
  have z: "recorded_status m_seen cs_poll ''z'' = Some ''degraded_performance''"
    by (simp add: cs_poll_def component_def recorded_status_def)
  show ?thesis
    using process_summary_events [OF keys, of m_seen] ev z by simp
qed

text \<open>
  Claim C10. When one payload lists a component id twice, with different statuses and no
  descriptor of that id in between, the second descriptor is compared with the status
  the first one has just stored, and its event is printed, whatever the monitor had on
  record before. When the id was not on record and occurs nowhere else in the payload,
  this is the only event of that id.
\<close>

theorem repeated_component_in_one_payload:
  assumes cs: "cs = pre @ c1 # mid @ c2 # post"
    and keys: "\<forall>c \<in> set cs. comp_id c \<noteq> None \<and> comp_name c \<noteq> None \<and> comp_status c \<noteq> None"
    and c1: "comp_id c1 = Some cid" "comp_status c1 = Some s1"
    and c2: "comp_id c2 = Some cid" "comp_name c2 = Some n2" "comp_status c2 = Some s2"
    and diff: "s1 \<noteq> s2"
    and mid: "\<forall>c \<in> set mid. comp_id c \<noteq> Some cid"
  shows "ComponentStatusChanged cid n2 s1 s2 \<in>
           set (fst (snd (process_summary \<lparr>components = Some cs\<rparr> m))) \<and>
         (map_of (component_statuses m) cid = None \<and>
          (\<forall>c \<in> set pre \<union> set post. comp_id c \<noteq> Some cid) \<longrightarrow>
          filter (\<lambda>e. event_id e = cid) (fst (snd (process_summary \<lparr>components = Some cs\<rparr> m))) =
            [ComponentStatusChanged cid n2 s1 s2])"
proof -
  from keys have all: "\<forall>c \<in> set cs. has_keys c"
    by (simp add: has_keys_def)
  then have k_pre: "\<forall>c \<in> set pre. has_keys c" and k1: "has_keys c1"
    and k_mid: "\<forall>c \<in> set mid. has_keys c" and k2: "has_keys c2"
    and k_post: "\<forall>c \<in> set post. has_keys c"
    by (simp_all add: cs)
  let ?ev = "ComponentStatusChanged cid n2 s1 s2"
  let ?f = "filter (\<lambda>e. event_id e = cid)"
  obtain ma ea where a: "summary_loop pre m = (ma, ea, None)"
    using summary_loop_run [OF k_pre, of m] by blast
  have sa: "map_of (component_statuses ma) k = recorded_status m pre k" for k
    using summary_loop_statuses [OF k_pre, of m k] a by simp
  obtain mb where b: "process_component c1 ma = (mb, change_of (map_of (component_statuses ma) cid) c1, None)"
    and sb: "map_of (component_statuses mb) cid = Some s1"
    using k1 c1 by (simp add: process_component_has_keys update_conv')
  obtain mc ec where c: "summary_loop mid mb = (mc, ec, None)"
    using summary_loop_run [OF k_mid, of mb] by blast
  have sc: "map_of (component_statuses mc) k = recorded_status mb mid k" for k
    using summary_loop_statuses [OF k_mid, of mb k] c by simp
  have sc': "map_of (component_statuses mc) cid = Some s1"
    using sc [of cid] recorded_status_others [OF mid, of mb] sb by simp
  obtain md where d: "process_component c2 mc = (md, [?ev], None)"
    using k2 c2 sc' diff by (simp add: process_component_has_keys change_of_def)
  obtain me ee where e: "summary_loop post md = (me, ee, None)"
    using summary_loop_run [OF k_post, of md] by blast
  have tail: "summary_loop (c2 # post) mc = (me, ?ev # ee, None)"
    by (simp add: d e)
  have midrun: "summary_loop (mid @ c2 # post) mb = (me, ec @ ?ev # ee, None)"
    by (simp add: summary_loop_append c tail del: summary_loop.simps)
  have c1run: "summary_loop (c1 # mid @ c2 # post) ma =
      (me, change_of (map_of (component_statuses ma) cid) c1 @ ec @ ?ev # ee, None)"
    by (simp add: b midrun)
  have run: "summary_loop cs m =
      (me, ea @ change_of (map_of (component_statuses ma) cid) c1 @ ec @ ?ev # ee, None)"
    unfolding cs by (simp add: summary_loop_append a c1run del: summary_loop.simps)
  have evs: "fst (snd (process_summary \<lparr>components = Some cs\<rparr> m)) =
      ea @ change_of (map_of (component_statuses ma) cid) c1 @ ec @ ?ev # ee"
    by (simp add: process_summary_def dget_def run)
  have part1: "?ev \<in> set (fst (snd (process_summary \<lparr>components = Some cs\<rparr> m)))"
    by (simp add: evs)
  have part2: "?f (fst (snd (process_summary \<lparr>components = Some cs\<rparr> m))) = [?ev]"
    if fresh: "map_of (component_statuses m) cid = None"
      and others: "\<forall>c \<in> set pre \<union> set post. comp_id c \<noteq> Some cid"
  proof -
    from others have o_pre: "\<forall>c \<in> set pre. comp_id c \<noteq> Some cid"
      and o_post: "\<forall>c \<in> set post. comp_id c \<noteq> Some cid"
      by simp_all
    have "?f ea = []"
      using summary_loop_others [of pre cid m] k_pre o_pre a by simp
    moreover have "map_of (component_statuses ma) cid = None"
      using sa [of cid] recorded_status_others [OF o_pre, of m] fresh by simp
    then have "change_of (map_of (component_statuses ma) cid) c1 = []"
      by (simp add: change_of_def)
    moreover have "?f ec = []"
      using summary_loop_others [of mid cid mb] k_mid mid c by simp
    moreover have "?f ee = []"
      using summary_loop_others [of post cid md] k_post o_post e by simp
    ultimately show ?thesis
      by (simp add: evs)
  qed
  show ?thesis
    using part1 part2 by blast
qed

theorem repeated_component_in_one_payload_witness:
  "ComponentStatusChanged ''x'' ''API v2'' ''operational'' ''major_outage'' \<in>
     set (fst (snd (process_summary \<lparr>components = Some cs_twice\<rparr> (init_monitor None)))) \<and>
   filter (\<lambda>e. event_id e = ''x'')
     (fst (snd (process_summary \<lparr>components = Some cs_twice\<rparr> (init_monitor None)))) =
     [ComponentStatusChanged ''x'' ''API v2'' ''operational'' ''major_outage'']"
  using repeated_component_in_one_payload
    [where cs = cs_twice and pre = "[]" and ?c1.0 = "component ''x'' ''API'' ''operational''"
       and mid = "[component ''y'' ''Chat'' ''operational'']"
       and ?c2.0 = "component ''x'' ''API v2'' ''major_outage''" and post = "[]"
       and cid = "''x''" and ?s1.0 = "''operational''" and ?n2.0 = "''API v2''"
       and ?s2.0 = "''major_outage''" and m = "init_monitor None"]
  by (simp add: cs_twice_def component_def init_monitor_def)

section \<open>Properties of \<open>process_incidents\<close>\<close>

text \<open>
  Claim C8. For an incident the monitor already tracks, a call in which every
  descriptor of that incident delivers only update ids of the stored seen set prints
  no block for the incident and leaves its stored record (seen update ids, status and
  \<open>updated_at\<close>) as it was. This holds for the monitor and the blocks the call leaves
  behind whether or not it runs to its end.
\<close>

theorem known_incident_without_new_updates:
  assumes "map_of (known_incidents m) iid = Some known"
    and "\<forall>inc \<in> set incs. inc_id inc = Some iid \<longrightarrow>
      (\<forall>u \<in> set (dget (incident_updates inc) []).
         \<forall>i. upd_id u = Some i \<longrightarrow> i \<in> seen_update_ids known)"
  shows "map_of (known_incidents (fst (process_incidents local_time \<lparr>incidents = Some incs\<rparr> suppress m))) iid
           = Some known \<and>
         filter (\<lambda>e. event_id e = iid)
           (fst (snd (process_incidents local_time \<lparr>incidents = Some incs\<rparr> suppress m))) = []"
proof -
  obtain m' out r where run: "incidents_loop local_time suppress incs m = (m', out, r)"
    by (cases "incidents_loop local_time suppress incs m") auto
  from incidents_loop_nothing_new [OF assms run] run show ?thesis
    by (simp add: process_incidents_def dget_def)
qed

theorem known_incident_without_new_updates_witness:
  "map_of (known_incidents
      (fst (process_incidents Inr \<lparr>incidents = Some [inc_fresh, inc_same]\<rparr> False m_known))) ''1''
     = Some (incident_record ''T1'' ''identified'' {''a'', ''b''}) \<and>
   filter (\<lambda>e. event_id e = ''1'')
     (fst (snd (process_incidents Inr \<lparr>incidents = Some [inc_fresh, inc_same]\<rparr> False m_known))) = []"
  using known_incident_without_new_updates
    [where m = m_known and iid = "''1''"
       and known = "incident_record ''T1'' ''identified'' {''a'', ''b''}"
       and incs = "[inc_fresh, inc_same]" and local_time = Inr and suppress = False]
  by (simp add: m_known_def init_monitor_def incident_record_def inc_fresh_def inc_same_def
      incident_def u_a_def u_b_def update_def dget_def)

text \<open>
  Claim C6, as the specification states it, fails. The branch for a tracked incident
  does not read \<open>suppress\<close>: when a payload lists an unseen incident twice, the second
  time with one more update, the second descriptor finds the record the first one has
  just made, and the update is printed although \<open>suppress\<close> is true.
\<close>

theorem listed_twice_suppressed_counterexample:
  "map_of (known_incidents (init_monitor None)) ''2'' = None \<and>
   process_incidents Inr \<lparr>incidents = Some [inc_fresh_first, inc_fresh]\<rparr> True (init_monitor None) =
     ((init_monitor None)\<lparr>known_incidents :=
        [(''2'', incident_record ''T1'' ''identified'' {''b'', ''a''})]\<rparr>,
      [IncidentUpdated ''2'' ''Login failures'' ''identified'' ''found''
         ''2024-01-01T01:00:00+00:00''],
      None)"
  by (simp add: example_defs model_defs replace_Z_def inc_fresh_first_def)

text \<open>
  Claim C6, amended. An incident that the monitor does not track and that a payload
  lists once, processed with \<open>suppress\<close> true by a call that returns: no block is
  printed for the incident, and the call leaves a record for it whose seen set is the
  set of the ids of the updates of the incident's delivered list, with the delivered
  status and \<open>updated_at\<close>.
\<close>

theorem first_seen_suppressed:
  assumes run: "process_incidents local_time \<lparr>incidents = Some (pre @ inc # post)\<rparr> True m = (m', out, None)"
    and id: "inc_id inc = Some iid"
    and fresh: "map_of (known_incidents m) iid = None"
    and pre: "\<forall>x \<in> set pre. inc_id x \<noteq> Some iid"
    and post: "\<forall>x \<in> set post. inc_id x \<noteq> Some iid"
  shows "filter (\<lambda>e. event_id e = iid) out = [] \<and>
         (\<forall>u \<in> set (dget (incident_updates inc) []). upd_id u \<noteq> None) \<and>
         map_of (known_incidents m') iid =
           Some \<lparr>updated_at = dget (inc_updated_at inc) '''',
                 status = dget (inc_status inc) '''',
                 seen_update_ids = {i. \<exists>u \<in> set (dget (incident_updates inc) []). upd_id u = Some i}\<rparr>"
proof -
  from run have loop: "incidents_loop local_time True (pre @ inc # post) m = (m', out, None)"
    by (simp add: process_incidents_def dget_def)
  from loop id pre post obtain m1 m2 where
    same: "map_of (known_incidents m1) iid = map_of (known_incidents m) iid" and
    step: "process_incident local_time True inc m1 = (m2, filter (\<lambda>e. event_id e = iid) out, None)" and
    kept: "map_of (known_incidents m') iid = map_of (known_incidents m2) iid"
    by (rule incidents_loop_once)
  from step id obtain U where ids: "update_ids (dget (incident_updates inc) []) = Inr U"
    by (auto elim: process_incident_returned_ids)
  from same fresh have new: "map_of (known_incidents m1) iid = None"
    by simp
  note U = update_ids_Inr [OF ids]
  from step show ?thesis
    unfolding process_incident_new [OF id ids new]
    using kept U by (auto simp: update_conv')
qed

theorem first_seen_suppressed_witness:
  "filter (\<lambda>e. event_id e = ''2'')
     (fst (snd (process_incidents Inr \<lparr>incidents = Some [inc_same, inc_fresh]\<rparr> True
        (init_monitor None)))) = [] \<and>
   map_of (known_incidents
     (fst (process_incidents Inr \<lparr>incidents = Some [inc_same, inc_fresh]\<rparr> True
        (init_monitor None)))) ''2'' =
     Some (incident_record ''T1'' ''identified'' {''a'', ''b''})"
proof -
  let ?R = "process_incidents Inr \<lparr>incidents = Some [inc_same, inc_fresh]\<rparr> True (init_monitor None)"
  have "snd (snd ?R) = None"
    by (simp add: example_defs model_defs)
  then have run: "process_incidents Inr \<lparr>incidents = Some ([inc_same] @ inc_fresh # [])\<rparr> True
      (init_monitor None) = (fst ?R, fst (snd ?R), None)"
    by (simp add: prod_eq_iff)
  have ids: "{i. \<exists>u \<in> set (dget (incident_updates inc_fresh) []). upd_id u = Some i} = {''a'', ''b''}"
    by (auto simp: example_defs dget_def)
  from first_seen_suppressed [OF run, of "''2''"] ids show ?thesis
    by (simp add: example_defs dget_def)
qed


text \<open>
  Claim C4. An incident that the monitor does not track, reached for the first time with
  \<open>suppress\<close> false by a call that returns: the call prints exactly one
  new-incident block for that id, and the message of the block is the body of the
  update at index 0 of the delivered list (the empty string when that update has no
  body or the list is empty).
\<close>

theorem first_seen_opened:
  assumes run: "process_incidents local_time \<lparr>incidents = Some (pre @ inc # post)\<rparr> False m = (m', out, None)"
    and id: "inc_id inc = Some iid"
    and fresh: "map_of (known_incidents m) iid = None"
    and pre: "\<forall>x \<in> set pre. inc_id x \<noteq> Some iid"
  shows "\<exists>name. inc_name inc = Some name \<and>
           filter (\<lambda>e. is_opened e \<and> event_id e = iid) out =
             [IncidentOpened iid name (dget (inc_impact inc) ''none'')
                (dget (inc_status inc) ''unknown'')
                (case dget (incident_updates inc) [] of
                   [] \<Rightarrow> '''' | u # _ \<Rightarrow> dget (upd_body u) '''')]"
proof -
  from run have loop: "incidents_loop local_time False (pre @ inc # post) m = (m', out, None)"
    by (simp add: process_incidents_def dget_def)
  from loop obtain m1 out1 m2 out2 out3 where
    a: "incidents_loop local_time False pre m = (m1, out1, None)" and
    b: "process_incident local_time False inc m1 = (m2, out2, None)" and
    c: "incidents_loop local_time False post m2 = (m', out3, None)" and
    o: "out = out1 @ out2 @ out3"
    by (rule incidents_loop_cut)
  note fa = incidents_loop_frame [OF pre a]
  from fa fresh have new: "map_of (known_incidents m1) iid = None"
    by simp
  from fa have o1: "filter (\<lambda>e. is_opened e \<and> event_id e = iid) out1 = []"
    by (auto simp: filter_empty_conv)
  from b id obtain U where ids: "update_ids (dget (incident_updates inc) []) = Inr U"
    by (auto elim: process_incident_returned_ids)
  from b obtain name where name: "inc_name inc = Some name"
    and o2: "out2 = [IncidentOpened iid name (dget (inc_impact inc) ''none'')
                (dget (inc_status inc) ''unknown'')
                (case dget (incident_updates inc) [] of
                   [] \<Rightarrow> '''' | u # _ \<Rightarrow> dget (upd_body u) '''')]"
    and m2: "map_of (known_incidents m2) iid \<noteq> None"
    unfolding process_incident_new [OF id ids new]
    by (auto simp: update_conv' split: option.splits)
  from incidents_loop_known [OF m2 c]
  have o3: "filter (\<lambda>e. is_opened e \<and> event_id e = iid) out3 = []"
    by simp
  show ?thesis
    using name o o1 o2 o3 by simp
qed

theorem first_seen_opened_witness:
  "filter (\<lambda>e. is_opened e \<and> event_id e = ''2'')
     (fst (snd (process_incidents Inr \<lparr>incidents = Some [inc_same, inc_fresh]\<rparr> False m_known))) =
     [IncidentOpened ''2'' ''Login failures'' ''minor'' ''identified'' ''found'']"
proof -
  let ?R = "process_incidents Inr \<lparr>incidents = Some [inc_same, inc_fresh]\<rparr> False m_known"
  have "snd (snd ?R) = None"
    by (simp add: example_defs model_defs)
  then have run: "process_incidents Inr \<lparr>incidents = Some ([inc_same] @ inc_fresh # [])\<rparr> False
      m_known = (fst ?R, fst (snd ?R), None)"
    by (simp add: prod_eq_iff)
  from first_seen_opened [OF run, of "''2''"] show ?thesis
    by (simp add: example_defs dget_def)
qed

text \<open>
  Claim C5, as the specification states it, fails. The code sorts the new updates on
  the \<open>created_at\<close> strings, not on the instants they denote: of two new updates
  half a second apart, the later one written \<open>00:00:00.500Z\<close> and the earlier one
  \<open>00:00:00Z\<close>, the earlier one is printed first. And when a payload lists a tracked
  incident twice, the second time with one more update, the two new updates are
  printed descriptor by descriptor, the one created earlier first.
\<close>

theorem created_at_order_counterexample:
  "instant ''2024-01-01T00:00:00Z'' \<noteq> None \<and>
   instant ''2024-01-01T00:00:00.500Z'' =
     map_option (\<lambda>n. n + 500) (instant ''2024-01-01T00:00:00Z'') \<and>
   process_incidents Inr \<lparr>incidents = Some [inc_fraction]\<rparr> False m_known =
     (m_known\<lparr>known_incidents :=
        [(''1'', incident_record ''T2'' ''monitoring'' {''r'', ''p'', ''b'', ''a''})]\<rparr>,
      [IncidentUpdated ''1'' ''API errors'' ''identified'' ''found'' ''2024-01-01T00:00:00+00:00'',
       IncidentUpdated ''1'' ''API errors'' ''monitoring'' ''fixed''
         ''2024-01-01T00:00:00.500+00:00''],
      None) \<and>
   process_incidents Inr \<lparr>incidents = Some [inc_first, inc_more]\<rparr> False m_known =
     (m_known\<lparr>known_incidents :=
        [(''1'', incident_record ''T3'' ''resolved'' {''c'', ''d'', ''b'', ''a''})]\<rparr>,
      [IncidentUpdated ''1'' ''API errors'' ''monitoring'' ''fixed'' ''2024-01-01T02:00:00+00:00'',
       IncidentUpdated ''1'' ''API errors'' ''resolved'' ''done'' ''2024-01-01T03:00:00+00:00''],
      None)"
proof -
  have a: "instant ''2024-01-01T00:00:00Z'' \<noteq> None"
    by (simp add: instant_def fraction_def digit_val_def)
  have b: "instant ''2024-01-01T00:00:00.500Z'' =
     map_option (\<lambda>n. n + 500) (instant ''2024-01-01T00:00:00Z'')"
    by (simp add: instant_def fraction_def digit_val_def)
  have c: "process_incidents Inr \<lparr>incidents = Some [inc_fraction]\<rparr> False m_known =
     (m_known\<lparr>known_incidents :=
        [(''1'', incident_record ''T2'' ''monitoring'' {''r'', ''p'', ''b'', ''a''})]\<rparr>,
      [IncidentUpdated ''1'' ''API errors'' ''identified'' ''found'' ''2024-01-01T00:00:00+00:00'',
       IncidentUpdated ''1'' ''API errors'' ''monitoring'' ''fixed''
         ''2024-01-01T00:00:00.500+00:00''],
      None)"
    by (simp add: example_defs model_defs replace_Z_def inc_fraction_def u_p_def u_r_def)
  have d: "process_incidents Inr \<lparr>incidents = Some [inc_first, inc_more]\<rparr> False m_known =
     (m_known\<lparr>known_incidents :=
        [(''1'', incident_record ''T3'' ''resolved'' {''c'', ''d'', ''b'', ''a''})]\<rparr>,
      [IncidentUpdated ''1'' ''API errors'' ''monitoring'' ''fixed'' ''2024-01-01T02:00:00+00:00'',
       IncidentUpdated ''1'' ''API errors'' ''resolved'' ''done'' ''2024-01-01T03:00:00+00:00''],
      None)"
    by (simp add: example_defs model_defs replace_Z_def inc_first_def)
  from a b c d show ?thesis
    by (intro conjI)
qed

text \<open>
  Claim C5, amended. A tracked incident that a payload lists once, with at least one
  update whose id is not in the stored seen set, processed by a call that returns: the
  blocks printed for the incident are the update blocks of the new updates, one for
  each, in the order of \<open>sorted_desc\<close>. That order is a rearrangement of the new
  updates in which the \<open>created_at\<close> string (the empty string when absent), compared
  as a string, never increases: of two new updates, the one with the greater string
  is printed first.
\<close>

theorem new_updates_of_known_incident:
  assumes run: "process_incidents local_time \<lparr>incidents = Some (pre @ inc # post)\<rparr> suppress m = (m', out, None)"
    and id: "inc_id inc = Some iid"
    and pre: "\<forall>x \<in> set pre. inc_id x \<noteq> Some iid"
    and post: "\<forall>x \<in> set post. inc_id x \<noteq> Some iid"
    and known: "map_of (known_incidents m) iid = Some known"
    and new: "\<exists>u \<in> set (dget (incident_updates inc) []).
                \<exists>i. upd_id u = Some i \<and> i \<notin> seen_update_ids known"
    and new_updates: "new_updates =
          filter (\<lambda>u. \<exists>i. upd_id u = Some i \<and> i \<notin> seen_update_ids known)
            (dget (incident_updates inc) [])"
  shows "list_all2
           (\<lambda>e u. \<exists>name t. inc_name inc = Some name \<and>
                    local_time (replace_Z (dget (upd_created_at u) '''')) = Inr t \<and>
                    e = IncidentUpdated iid name (dget (upd_status u) ''unknown'')
                          (dget (upd_body u) '''') t)
           (filter (\<lambda>e. event_id e = iid) out) (sorted_desc new_updates) \<and>
         mset (sorted_desc new_updates) = mset new_updates \<and>
         sorted_wrt (\<lambda>a b. dget (upd_created_at b) '''' \<le> dget (upd_created_at a) '''')
           (sorted_desc new_updates) \<and>
         (\<forall>i j. i < length new_updates \<and> j < length new_updates \<and>
            dget (upd_created_at (sorted_desc new_updates ! i)) '''' <
              dget (upd_created_at (sorted_desc new_updates ! j)) '''' \<longrightarrow>
            j < i)"
proof -
  from run have loop: "incidents_loop local_time suppress (pre @ inc # post) m = (m', out, None)"
    by (simp add: process_incidents_def dget_def)
  from incidents_loop_new_updates(1) [OF loop id pre post known new]
  have "emit_updates local_time iid (inc_name inc) (sorted_desc new_updates) =
      (filter (\<lambda>e. event_id e = iid) out, None)"
    by (simp add: new_updates)
  note blocks = emit_updates_blocks [OF this]
  have len: "length (sorted_desc new_updates) = length new_updates"
    by (simp add: sorted_desc_def)
  have sorted: "sorted_wrt (\<lambda>a b. dget (upd_created_at b) '''' \<le> dget (upd_created_at a) '''')
      (sorted_desc new_updates)"
    using sorted_desc_sorted [of new_updates] by (simp add: created_key_def)
  have strict: "j < i"
    if "i < length new_updates" "j < length new_updates"
      "dget (upd_created_at (sorted_desc new_updates ! i)) '''' <
         dget (upd_created_at (sorted_desc new_updates ! j)) ''''" for i j
  proof (rule ccontr)
    assume "\<not> j < i"
    then consider "i = j" | "i < j"
      by linarith
    then show False
    proof cases
      case 1
      with that(3) show False by simp
    next
      case 2
      with sorted that(2) len
      have "dget (upd_created_at (sorted_desc new_updates ! j)) '''' \<le>
          dget (upd_created_at (sorted_desc new_updates ! i)) ''''"
        by (simp add: sorted_wrt_iff_nth_less)
      with that(3) show False by simp
    qed
  qed
  from blocks sorted strict sorted_desc_mset [of new_updates] show ?thesis
    by blast
qed

theorem new_updates_of_known_incident_witness:
  "filter (\<lambda>e. event_id e = ''1'')
     (fst (snd (process_incidents Inr \<lparr>incidents = Some [inc_fresh, inc_more]\<rparr> False m_known))) =
     [IncidentUpdated ''1'' ''API errors'' ''resolved'' ''done'' ''2024-01-01T03:00:00+00:00'',
      IncidentUpdated ''1'' ''API errors'' ''monitoring'' ''fixed'' ''2024-01-01T02:00:00+00:00'']"
proof -
  let ?R = "process_incidents Inr \<lparr>incidents = Some [inc_fresh, inc_more]\<rparr> False m_known"
  have "snd (snd ?R) = None"
    by (simp add: example_defs model_defs replace_Z_def)
  then have run: "process_incidents Inr \<lparr>incidents = Some ([inc_fresh] @ inc_more # [])\<rparr> False
      m_known = (fst ?R, fst (snd ?R), None)"
    by (simp add: prod_eq_iff)
  have known: "map_of (known_incidents m_known) ''1'' =
      Some (incident_record ''T1'' ''identified'' {''a'', ''b''})"
    by (simp add: example_defs)
  have new: "filter (\<lambda>u. \<exists>i. upd_id u = Some i \<and>
        i \<notin> seen_update_ids (incident_record ''T1'' ''identified'' {''a'', ''b''}))
      (dget (incident_updates inc_more) []) = [u_c, u_d]"
    by (simp add: example_defs dget_def)
  have sorted: "sorted_desc [u_c, u_d] = [u_d, u_c]"
    by (simp add: example_defs sorted_desc_def created_key_def dget_def)
  from new_updates_of_known_incident [OF run _ _ _ known _ new [symmetric]]
  have "list_all2
     (\<lambda>e u. \<exists>name t. inc_name inc_more = Some name \<and>
              Inr (replace_Z (dget (upd_created_at u) '''')) = Inr t \<and>
              e = IncidentUpdated ''1'' name (dget (upd_status u) ''unknown'')
                    (dget (upd_body u) '''') t)
     (filter (\<lambda>e. event_id e = ''1'') (fst (snd ?R))) (sorted_desc [u_c, u_d])"
    by (simp add: example_defs dget_def)
  then show ?thesis
    unfolding sorted
    by (auto simp: list_all2_Cons2 example_defs dget_def replace_Z_def)
qed

text \<open>
  Claim C2, as the specification states it, fails: the assignment
  \<open>known["seen_update_ids"] = update_ids\<close> replaces the stored set. Here the monitor
  has seen \<open>a\<close> and \<open>b\<close>, the payload delivers \<open>c\<close> and \<open>b\<close>, and afterwards
  \<open>a\<close> is no longer in the stored set.
\<close>

theorem seen_set_union_counterexample:
  "map_option seen_update_ids (map_of (known_incidents m_known) ''1'') = Some {''a'', ''b''} \<and>
   update_ids (dget (incident_updates inc_dropped) []) = Inr {''c'', ''b''} \<and>
   map_option seen_update_ids
     (map_of (known_incidents
        (fst (process_incidents Inr \<lparr>incidents = Some [inc_dropped]\<rparr> False m_known))) ''1'') =
     Some {''c'', ''b''} \<and>
   \<not> {''a'', ''b''} \<subseteq> {''c'', ''b''}"
proof -
  have before: "map_option seen_update_ids (map_of (known_incidents m_known) ''1'') = Some {''a'', ''b''}"
    by (simp add: example_defs)
  have delivered: "update_ids (dget (incident_updates inc_dropped) []) = Inr {''c'', ''b''}"
    by (simp add: example_defs dget_def)
  have after: "map_option seen_update_ids
     (map_of (known_incidents
        (fst (process_incidents Inr \<lparr>incidents = Some [inc_dropped]\<rparr> False m_known))) ''1'') =
     Some {''c'', ''b''}"
    by (simp add: example_defs model_defs replace_Z_def)
  have shrunk: "\<not> {''a'', ''b''} \<subseteq> {''c'', ''b''}"
    by simp
  show ?thesis
    by (intro conjI before delivered after shrunk)
qed

text \<open>
  Claim C2, amended. A tracked incident that a payload lists once, with at least one
  update whose id is not in the stored seen set, processed by a call that returns: the
  stored seen set becomes the set of the update ids the payload delivers for the
  incident, and the stored status and \<open>updated_at\<close> become the delivered ones. It is the
  union of the old set and the delivered ids exactly in the case where the payload
  still delivers every id seen before.
\<close>

theorem seen_set_replaced:
  assumes run: "process_incidents local_time \<lparr>incidents = Some (pre @ inc # post)\<rparr> suppress m = (m', out, None)"
    and id: "inc_id inc = Some iid"
    and pre: "\<forall>x \<in> set pre. inc_id x \<noteq> Some iid"
    and post: "\<forall>x \<in> set post. inc_id x \<noteq> Some iid"
    and known: "map_of (known_incidents m) iid = Some known"
    and new: "\<exists>u \<in> set (dget (incident_updates inc) []).
                \<exists>i. upd_id u = Some i \<and> i \<notin> seen_update_ids known"
    and delivered: "delivered = {i. \<exists>u \<in> set (dget (incident_updates inc) []). upd_id u = Some i}"
  shows "map_of (known_incidents m') iid =
           Some (known\<lparr>seen_update_ids := delivered,
                        updated_at := dget (inc_updated_at inc) '''',
                        status := dget (inc_status inc) ''''\<rparr>) \<and>
         (map_option seen_update_ids (map_of (known_incidents m') iid) =
            Some (seen_update_ids known \<union> delivered) \<longleftrightarrow>
          seen_update_ids known \<subseteq> delivered)"
proof -
  from run have loop: "incidents_loop local_time suppress (pre @ inc # post) m = (m', out, None)"
    by (simp add: process_incidents_def dget_def)
  from incidents_loop_new_updates(2) [OF loop id pre post known new]
  show ?thesis
    by (auto simp: delivered)
qed

theorem seen_set_replaced_witness:
  "map_option seen_update_ids
     (map_of (known_incidents
        (fst (process_incidents Inr \<lparr>incidents = Some [inc_fresh, inc_more]\<rparr> False m_known))) ''1'') =
     Some {''a'', ''b'', ''c'', ''d''}"
proof -
  let ?R = "process_incidents Inr \<lparr>incidents = Some [inc_fresh, inc_more]\<rparr> False m_known"
  have "snd (snd ?R) = None"
    by (simp add: example_defs model_defs replace_Z_def)
  then have run: "process_incidents Inr \<lparr>incidents = Some ([inc_fresh] @ inc_more # [])\<rparr> False
      m_known = (fst ?R, fst (snd ?R), None)"
    by (simp add: prod_eq_iff)
  have known: "map_of (known_incidents m_known) ''1'' =
      Some (incident_record ''T1'' ''identified'' {''a'', ''b''})"
    by (simp add: example_defs)
  have delivered: "{''a'', ''b'', ''c'', ''d''} =
      {i. \<exists>u \<in> set (dget (incident_updates inc_more) []). upd_id u = Some i}"
    by (auto simp: example_defs dget_def)
  from seen_set_replaced [OF run _ _ _ known _ delivered] show ?thesis
    by (simp add: example_defs dget_def)
qed

section \<open>Missing keys\<close>




section \<open>The two variants\<close>

text \<open>
  Claim C9, as the specification states it, fails. On its first run the server only
  stores the component statuses, while the monitor diffs every descriptor against what
  it has stored so far: for a first summary that lists the component \<open>x\<close> twice with
  different statuses the monitor prints a status change and the server logs nothing.
  And the server's test \<open>if old and ...\<close> takes a stored empty string for no status:
  when \<open>x\<close> goes from the empty status to operational, the monitor prints the change
  and the server logs nothing.
\<close>

theorem variants_differ_counterexample:
  "snd (run Inr [(Some \<lparr>components = Some cs_twice\<rparr>, None)] (init_monitor None)) =
     [ComponentStatusChanged ''x'' ''API v2'' ''operational'' ''major_outage''] \<and>
   poll_loop Inr [(Some \<lparr>components = Some cs_twice\<rparr>, None)] init_server =
     (\<lparr>sv_known_incidents = [],
       sv_component_statuses = [(''x'', ''major_outage''), (''y'', ''operational'')],
       sv_first_run = False\<rparr>, [], None) \<and>
   snd (run Inr polls_empty_status (init_monitor None)) =
     [ComponentStatusChanged ''x'' ''API'' '''' ''operational''] \<and>
   poll_loop Inr polls_empty_status init_server =
     (\<lparr>sv_known_incidents = [], sv_component_statuses = [(''x'', ''operational'')],
       sv_first_run = False\<rparr>, [], None)"
proof -
  have a: "snd (run Inr [(Some \<lparr>components = Some cs_twice\<rparr>, None)] (init_monitor None)) =
     [ComponentStatusChanged ''x'' ''API v2'' ''operational'' ''major_outage'']"
    by (simp add: poll_def process_summary_def process_component_def cs_twice_def component_def
        init_monitor_def dget_def)
  have b: "poll_loop Inr [(Some \<lparr>components = Some cs_twice\<rparr>, None)] init_server =
     (\<lparr>sv_known_incidents = [],
       sv_component_statuses = [(''x'', ''major_outage''), (''y'', ''operational'')],
       sv_first_run = False\<rparr>, [], None)"
    by (simp add: cs_twice_def component_def init_server_def poll_iteration_def dget_def)
  have c: "snd (run Inr polls_empty_status (init_monitor None)) =
     [ComponentStatusChanged ''x'' ''API'' '''' ''operational'']"
    by (simp add: polls_empty_status_def poll_def process_summary_def process_component_def
        component_def init_monitor_def dget_def)
  have d: "poll_loop Inr polls_empty_status init_server =
     (\<lparr>sv_known_incidents = [], sv_component_statuses = [(''x'', ''operational'')],
       sv_first_run = False\<rparr>, [], None)"
    by (simp add: polls_empty_status_def component_def init_server_def poll_iteration_def
        diff_component_def store_status_def dget_def)
  from a b c d show ?thesis
    by (intro conjI)
qed

text \<open>
  Claim C9, amended. Both variants start with empty state and \<open>first_run\<close> true and
  are given the same sequence of fetch results, in which every component has \<open>id\<close>,
  \<open>name\<close> and a \<open>status\<close> that is not the empty string, every incident has \<open>id\<close>,
  \<open>name\<close> and \<open>status\<close>, every update has \<open>id\<close>, \<open>status\<close> and a \<open>created_at\<close>
  that \<open>fmt_time\<close> renders without an exception, and the first summary lists no
  component id twice. Then the server's loop runs through without an exception, its
  log entries are those of the monitor's blocks, in the same order (the entry of a new
  incident without the message body), and its state is the monitor's, without the
  component names and the incidents' \<open>updated_at\<close>, which the server does not keep.
\<close>

theorem run_and_poll_loop_agree:
  assumes "\<forall>p \<in> set polls. complete_poll local_time p"
    and "first_summary_distinct polls"
  shows "poll_loop local_time polls init_server =
           (tracked (fst (run local_time polls (init_monitor iv))),
            map log_of (snd (run local_time polls (init_monitor iv))), None)"
proof -
  have init: "tracked (init_monitor iv) = init_server"
    by (simp add: tracked_def init_monitor_def init_server_def)
  have "filled (init_monitor iv)"
    by (simp add: filled_def init_monitor_def)
  moreover have "first_run (init_monitor iv) \<longrightarrow>
      component_statuses (init_monitor iv) = [] \<and> first_summary_distinct polls"
    using assms(2) by (simp add: init_monitor_def)
  ultimately show ?thesis
    using run_poll_loop [OF assms(1), of "init_monitor iv"] init by simp
qed

theorem run_and_poll_loop_agree_witness:
  "poll_loop Inr polls_ex init_server =
     (tracked (fst (run Inr polls_ex (init_monitor None))),
      [ComponentChange ''API'' ''operational'' ''major_outage'',
       NewIncident ''Login failures'' ''minor'' ''identified'',
       IncidentUpdate ''2024-01-01T03:00:00+00:00'' ''API errors'' ''resolved'' ''done'',
       IncidentUpdate ''2024-01-01T02:00:00+00:00'' ''API errors'' ''monitoring'' ''fixed''],
      None)"
proof -
  have ok: "\<forall>p \<in> set polls_ex. complete_poll Inr p"
    by (simp add: polls_ex_def complete_poll_def complete_component_def complete_incident_def
        complete_update_def cs_poll_def component_def example_defs dget_def)
  have dist: "first_summary_distinct polls_ex"
    by (simp add: polls_ex_def first_summary_distinct_def component_def dget_def)
  have out: "snd (run Inr polls_ex (init_monitor None)) =
      [ComponentStatusChanged ''x'' ''API'' ''operational'' ''major_outage'',
       IncidentOpened ''2'' ''Login failures'' ''minor'' ''identified'' ''found'',
       IncidentUpdated ''1'' ''API errors'' ''resolved'' ''done'' ''2024-01-01T03:00:00+00:00'',
       IncidentUpdated ''1'' ''API errors'' ''monitoring'' ''fixed'' ''2024-01-01T02:00:00+00:00'']"
    by (simp add: polls_ex_def poll_def process_summary_def process_component_def cs_poll_def
        component_def example_defs model_defs replace_Z_def)
  from run_and_poll_loop_agree [OF ok dist, of None] show ?thesis
    by (simp add: out)
qed

end
